theory Spec2Isabelle
  imports Main "HOL-Library.AList"
begin

section \<open>Data model\<close>

text \<open>
  Modelled from the spec: the Go types of \<^verbatim>\<open>api/v1alpha1\<close>, which are not under the source
  files. The records carry the fields that the specification lists for a run, its
  status, a step and a step status, as far as \<^verbatim>\<open>pkg/utils/operation.go\<close> and
  \<^verbatim>\<open>pkg/steps/generator.go\<close> read and write them, named as the code names them. Go's
  string-typed enumerations (phase, reason, mode, step type) stay strings, so the zero
  value of a struct is the record with empty strings, \<open>False\<close>, \<open>None\<close> and \<open>[]\<close>. Several
  records have a field \<open>Name\<close>, \<open>Type\<close>, \<open>Steps\<close> or \<open>Mode\<close>: such a field is always written
  with its record's name in front.
\<close>

text \<open>\<^verbatim>\<open>metav1.Time\<close>: \<open>None\<close> is the zero time, for which \<^verbatim>\<open>IsZero()\<close> holds.\<close>

type_synonym Time = "int option"

record StepStatus =
  ID :: string
  Name :: string
  Type :: string
  Phase :: string
  Message :: string
  Reason :: string
  FirstExecuteTime :: Time
  LastExecuteTime :: Time

text \<open>\<^verbatim>\<open>WorkflowStepStatus\<close> embeds \<^verbatim>\<open>StepStatus\<close> and adds the substeps' statuses.\<close>

record WorkflowStepStatus = StepStatus +
  SubStepsStatus :: "StepStatus list"

record WorkflowExecuteMode =
  Steps :: string
  SubSteps :: string

record ObjectReference =
  Name :: string

record WorkflowRunStatus =
  Mode :: WorkflowExecuteMode
  Suspend :: bool
  Terminated :: bool
  Finished :: bool
  ContextBackend :: "ObjectReference option"
  Steps :: "WorkflowStepStatus list"
  EndTime :: Time

record inputItem =
  From :: string
  ParameterKey :: string

record outputItem =
  Name :: string
  ValueFrom :: string

record WorkflowStepBase =
  Name :: string
  Type :: string
  If :: string
  Timeout :: string
  DependsOn :: "string list"
  Inputs :: "inputItem list"
  Outputs :: "outputItem list"
  Properties :: string

text \<open>\<^verbatim>\<open>WorkflowStep\<close> embeds \<^verbatim>\<open>WorkflowStepBase\<close> and adds the substeps of a step group.\<close>

record WorkflowStep = WorkflowStepBase +
  SubSteps :: "WorkflowStepBase list"

record WorkflowSpec =
  Steps :: "WorkflowStep list"

record WorkflowRunSpec =
  Mode :: "WorkflowExecuteMode option"
  WorkflowSpec :: "WorkflowSpec option"
  WorkflowRef :: string

record WorkflowRun =
  Name :: string
  Namespace :: string
  Spec :: WorkflowRunSpec
  Status :: WorkflowRunStatus

text \<open>
  \<^verbatim>\<open>corev1.ConfigMap\<close>: \<open>Data\<close> is a Go map, \<open>None\<close> the nil map (reading a key of it gives
  the empty string, assigning to it panics).
\<close>

record ConfigMap =
  Name :: string
  Namespace :: string
  Data :: "(string \<times> string) list option"

subsection \<open>Constants\<close>

text \<open>
  Modelled from the spec: the constants of \<^verbatim>\<open>api/v1alpha1\<close> and \<^verbatim>\<open>pkg/types\<close>, which are
  not under the source files. The spec names the phases Pending, Running, Succeeded,
  Failed, Skipped and Suspending, the reasons \<^verbatim>\<open>Terminate\<close>, \<^verbatim>\<open>FailedAfterRetries\<close> and
  \<^verbatim>\<open>Timeout\<close>, the modes \<^verbatim>\<open>DAG\<close> and \<^verbatim>\<open>StepByStep\<close>, and the step types \<^verbatim>\<open>suspend\<close> and
  \<^verbatim>\<open>step-group\<close>. Only their being pairwise different matters below.
\<close>

definition WorkflowStepPhaseSucceeded :: string where
  "WorkflowStepPhaseSucceeded = ''succeeded''"

definition WorkflowStepPhaseFailed :: string where
  "WorkflowStepPhaseFailed = ''failed''"

definition WorkflowStepPhaseSkipped :: string where
  "WorkflowStepPhaseSkipped = ''skipped''"

definition WorkflowStepPhaseRunning :: string where
  "WorkflowStepPhaseRunning = ''running''"

definition WorkflowStepPhasePending :: string where
  "WorkflowStepPhasePending = ''pending''"

definition WorkflowStepPhaseSuspending :: string where
  "WorkflowStepPhaseSuspending = ''suspending''"

definition StatusReasonTerminate :: string where
  "StatusReasonTerminate = ''Terminate''"

definition StatusReasonFailedAfterRetries :: string where
  "StatusReasonFailedAfterRetries = ''FailedAfterRetries''"

definition StatusReasonTimeout :: string where
  "StatusReasonTimeout = ''Timeout''"

definition WorkflowModeDAG :: string where
  "WorkflowModeDAG = ''DAG''"

definition WorkflowModeStep :: string where
  "WorkflowModeStep = ''StepByStep''"

definition WorkflowStepTypeSuspend :: string where
  "WorkflowStepTypeSuspend = ''suspend''"

definition WorkflowStepTypeStepGroup :: string where
  "WorkflowStepTypeStepGroup = ''step-group''"

text \<open>The constant \<^verbatim>\<open>ConfigMapKeyVars\<close> of \<^verbatim>\<open>pkg/context/context.go\<close>.\<close>

definition ConfigMapKeyVars :: string where
  "ConfigMapKeyVars = ''vars''"

lemmas constant_defs =
  WorkflowStepPhaseSucceeded_def WorkflowStepPhaseFailed_def WorkflowStepPhaseSkipped_def
  WorkflowStepPhaseRunning_def WorkflowStepPhasePending_def WorkflowStepPhaseSuspending_def
  StatusReasonTerminate_def StatusReasonFailedAfterRetries_def StatusReasonTimeout_def
  WorkflowModeDAG_def WorkflowModeStep_def WorkflowStepTypeSuspend_def
  WorkflowStepTypeStepGroup_def ConfigMapKeyVars_def

subsection \<open>Errors, the client and the result of an operation\<close>

text \<open>
  Every \<^verbatim>\<open>fmt.Errorf\<close> of \<^verbatim>\<open>operation.go\<close> is a constructor. \<open>ErrNotFound\<close> is the API error
  for which \<^verbatim>\<open>kerrors.IsNotFound\<close> holds, \<open>ErrAPI\<close> any other error of a client call,
  \<open>ErrCue\<close> an error of the CUE library, \<open>ErrWriter\<close> an error of the output writer.
  A Go run-time panic (index out of range, assignment to a nil map) is the value \<open>Panic\<close>.
\<close>

datatype error =
    ErrResumeTerminated
  | ErrRollback
  | ErrStepNameEmpty
  | ErrNonFailedStep
  | ErrStepNotFound string
  | ErrNotStructLit
  | ErrNotFound
  | ErrAPI string
  | ErrCue string
  | ErrWriter string
  | Panic string

definition IsNotFound :: "error \<Rightarrow> bool" where
  "IsNotFound e = (e = ErrNotFound)"

text \<open>
  The mutating calls an operation makes on the cluster: \<^verbatim>\<open>cli.Status().Patch(ctx, run,
  client.Merge)\<close>, \<^verbatim>\<open>cli.Status().Update(ctx, run)\<close>, \<^verbatim>\<open>cli.Delete(ctx, cm)\<close> and
  \<^verbatim>\<open>cli.Update(ctx, cm)\<close>, each with the object it sends.
\<close>

datatype request =
    StatusPatch WorkflowRun
  | StatusUpdate WorkflowRun
  | DeleteConfigMap ConfigMap
  | UpdateConfigMap ConfigMap

text \<open>
  \<^verbatim>\<open>client.Client\<close> is an interface handed to every operation; the model takes its answers
  as functions. \<open>getConfigMap\<close> and \<open>getWorkflow\<close> answer \<^verbatim>\<open>cli.Get\<close> for a key
  (namespace, name); \<open>send\<close> answers a mutating call, \<open>None\<close> for \<^verbatim>\<open>nil\<close>. Where the code
  wraps a call in \<^verbatim>\<open>retry.RetryOnConflict\<close>, \<open>send\<close> is the outcome of the whole retry.
  What the API server does with an object is outside the model: the run in memory after
  a call is the run that was sent.
\<close>

record client =
  getConfigMap :: "string \<times> string \<Rightarrow> error + ConfigMap"
  getWorkflow :: "string \<times> string \<Rightarrow> error + WorkflowSpec"
  send :: "request \<Rightarrow> error option"

text \<open>
  An operation gets the run by pointer and changes it in place, so its result is the
  error it returns (\<open>None\<close> for \<^verbatim>\<open>nil\<close>), the run as it is in memory afterwards, and the
  mutating calls it made, in order.
\<close>

record result =
  err :: "error option"
  run :: WorkflowRun
  calls :: "request list"

record workflowRunOperator =
  cli :: client
  outputWriter :: "(string \<Rightarrow> error option) option"
  operatorRun :: WorkflowRun

text \<open>\<^verbatim>\<open>writeOutputF\<close>: no writer, no error; else the writer's answer to the formatted text.\<close>

definition writeOutputF :: "workflowRunOperator \<Rightarrow> string \<Rightarrow> error option" where
  "writeOutputF wo text =
     (case outputWriter wo of None \<Rightarrow> None | Some w \<Rightarrow> w text)"

section \<open>Terminate\<close>

text \<open>
  The \<^verbatim>\<open>switch\<close> on the phase, which \<^verbatim>\<open>TerminateWorkflow\<close> runs on every step and on every
  substep: a failed entry gets the reason Terminate unless its reason is
  FailedAfterRetries or Timeout, a running entry becomes failed with the reason
  Terminate, any other entry is left alone.
\<close>

definition terminateSwitch :: "'a StepStatus_scheme \<Rightarrow> 'a StepStatus_scheme" where
  "terminateSwitch s =
     (if Phase s = WorkflowStepPhaseFailed then
        (if Reason s \<noteq> StatusReasonFailedAfterRetries \<and> Reason s \<noteq> StatusReasonTimeout
         then s\<lparr>Reason := StatusReasonTerminate\<rparr> else s)
      else if Phase s = WorkflowStepPhaseRunning then
        s\<lparr>Phase := WorkflowStepPhaseFailed, Reason := StatusReasonTerminate\<rparr>
      else s)"

text \<open>The body of the loop over \<^verbatim>\<open>steps\<close>: the switch on the step, then on its substeps.\<close>

definition terminateStep :: "WorkflowStepStatus \<Rightarrow> WorkflowStepStatus" where
  "terminateStep step =
     (terminateSwitch step)\<lparr>SubStepsStatus := map terminateSwitch (SubStepsStatus step)\<rparr>"

definition TerminateWorkflow :: "client \<Rightarrow> WorkflowRun \<Rightarrow> result" where
  "TerminateWorkflow c r =
     (let r' = r\<lparr>Status := (Status r)\<lparr>Terminated := True, Suspend := False,
                  WorkflowRunStatus.Steps := map terminateStep (WorkflowRunStatus.Steps (Status r))\<rparr>\<rparr>
      in \<lparr>err = send c (StatusPatch r'), run = r', calls = [StatusPatch r']\<rparr>)"

definition Terminate :: "workflowRunOperator \<Rightarrow> result" where
  "Terminate wo =
     (let res = TerminateWorkflow (cli wo) (operatorRun wo) in
      case err res of
        Some e \<Rightarrow> res
      | None \<Rightarrow> res\<lparr>err := writeOutputF wo (''Successfully terminate workflow: '' @ WorkflowRun.Name (run res) @ [CHR 0x0A])\<rparr>)"

section \<open>Resume\<close>

text \<open>
  The body of the loop of \<^verbatim>\<open>ResumeWorkflow\<close>: a step of type suspend whose phase is
  \<^verbatim>\<open>WorkflowStepPhaseRunning\<close> gets the phase succeeded, and so does each such substep.
\<close>

definition resumeSwitch :: "'a StepStatus_scheme \<Rightarrow> 'a StepStatus_scheme" where
  "resumeSwitch s =
     (if StepStatus.Type s = WorkflowStepTypeSuspend \<and> Phase s = WorkflowStepPhaseRunning
      then s\<lparr>Phase := WorkflowStepPhaseSucceeded\<rparr> else s)"

definition resumeStep :: "WorkflowStepStatus \<Rightarrow> WorkflowStepStatus" where
  "resumeStep step =
     (resumeSwitch step)\<lparr>SubStepsStatus := map resumeSwitch (SubStepsStatus step)\<rparr>"

definition ResumeWorkflow :: "client \<Rightarrow> WorkflowRun \<Rightarrow> result" where
  "ResumeWorkflow c r =
     (let r' = r\<lparr>Status := (Status r)\<lparr>Suspend := False,
                  WorkflowRunStatus.Steps := map resumeStep (WorkflowRunStatus.Steps (Status r))\<rparr>\<rparr>
      in \<lparr>err = send c (StatusPatch r'), run = r', calls = [StatusPatch r']\<rparr>)"

definition Resume :: "workflowRunOperator \<Rightarrow> result" where
  "Resume wo =
     (let r = operatorRun wo in
      if Terminated (Status r) then \<lparr>err = Some ErrResumeTerminated, run = r, calls = []\<rparr>
      else
        (let res = (if Suspend (Status r) then ResumeWorkflow (cli wo) r
                    else \<lparr>err = None, run = r, calls = []\<rparr>)
         in case err res of
              Some e \<Rightarrow> res
            | None \<Rightarrow> res\<lparr>err := writeOutputF wo (''Successfully resume workflow: '' @ WorkflowRun.Name r @ [CHR 0x0A])\<rparr>))"

section \<open>Rollback\<close>

definition Rollback :: "workflowRunOperator \<Rightarrow> result" where
  "Rollback wo = \<lparr>err = Some ErrRollback, run = operatorRun wo, calls = []\<rparr>"

section \<open>Dependencies of a step\<close>

fun stringsContain :: "string list \<Rightarrow> string \<Rightarrow> bool" where
  "stringsContain [] source = False"
| "stringsContain (item # items) source = (if item = source then True else stringsContain items source)"

fun mergeUniqueStringSlice :: "string list \<Rightarrow> string list \<Rightarrow> string list" where
  "mergeUniqueStringSlice a [] = a"
| "mergeUniqueStringSlice a (item # b) =
     mergeUniqueStringSlice (if \<not> stringsContain a item then a @ [item] else a) b"

subsection \<open>Step by step: the steps declared later\<close>

text \<open>
  The inner loop of the non-DAG branch: the names after the first substep called
  \<open>stepName\<close>, or \<open>None\<close> when no substep has that name.
\<close>

fun subStepsAfter :: "string \<Rightarrow> WorkflowStepBase list \<Rightarrow> string list option" where
  "subStepsAfter stepName [] = None"
| "subStepsAfter stepName (sub # subs) =
     (if WorkflowStepBase.Name sub = stepName then Some (map WorkflowStepBase.Name subs)
      else subStepsAfter stepName subs)"

fun stepsAfter :: "string \<Rightarrow> WorkflowStep list \<Rightarrow> string list" where
  "stepsAfter stepName [] = []"
| "stepsAfter stepName (step # steps) =
     (if WorkflowStepBase.Name step = stepName then map WorkflowStepBase.Name steps
      else (case subStepsAfter stepName (SubSteps step) of
              Some dependency \<Rightarrow> dependency
            | None \<Rightarrow> stepsAfter stepName steps))"

subsection \<open>DAG: the map \<open>dependsOn\<close>\<close>

text \<open>
  A Go map is an association list with one entry per key: \<^verbatim>\<open>m[k] = v\<close> is
  \<^const>\<open>AList.update\<close>, a read of an absent key gives the zero value. Go visits the
  entries of a map in an order it does not specify; the model visits them in the order
  of the list, and the results below are stated on the set of the returned names,
  which is the same for every order of the entries.
\<close>

type_synonym dependsOnMap = "(string \<times> string list) list"
type_synonym stepOutputsMap = "(string \<times> string) list"

definition lookupDeps :: "dependsOnMap \<Rightarrow> string \<Rightarrow> string list" where
  "lookupDeps dependsOn name = (case map_of dependsOn name of None \<Rightarrow> [] | Some deps \<Rightarrow> deps)"

text \<open>First loop, on one step or substep: its outputs and its \<^verbatim>\<open>DependsOn\<close> are recorded.\<close>

definition recordStep ::
  "'a WorkflowStepBase_scheme \<Rightarrow> dependsOnMap \<times> stepOutputsMap \<Rightarrow> dependsOnMap \<times> stepOutputsMap" where
  "recordStep step = (\<lambda>(dependsOn, stepOutputs).
     (AList.update (WorkflowStepBase.Name step) (DependsOn step) dependsOn,
      fold (\<lambda>output. AList.update (outputItem.Name output) (WorkflowStepBase.Name step))
        (Outputs step) stepOutputs))"

definition recordSteps :: "WorkflowStep list \<Rightarrow> dependsOnMap \<times> stepOutputsMap" where
  "recordSteps steps =
     fold (\<lambda>step acc. fold recordStep (SubSteps step) (recordStep step acc)) steps ([], [])"

text \<open>
  Second loop, on one step or substep: every input whose \<^verbatim>\<open>From\<close> is a recorded output
  adds the producer of that output, unless the list has it already.
\<close>

definition addInputs :: "stepOutputsMap \<Rightarrow> 'a WorkflowStepBase_scheme \<Rightarrow> dependsOnMap \<Rightarrow> dependsOnMap" where
  "addInputs stepOutputs step =
     fold (\<lambda>input dependsOn.
        (case map_of stepOutputs (From input) of
           Some name \<Rightarrow>
             (if \<not> stringsContain (lookupDeps dependsOn (WorkflowStepBase.Name step)) name
              then AList.update (WorkflowStepBase.Name step)
                     (lookupDeps dependsOn (WorkflowStepBase.Name step) @ [name]) dependsOn
              else dependsOn)
         | None \<Rightarrow> dependsOn))
       (Inputs step)"

definition buildDependsOn :: "WorkflowStep list \<Rightarrow> dependsOnMap" where
  "buildDependsOn steps =
     (let (dependsOn, stepOutputs) = recordSteps steps in
      fold (\<lambda>step acc. fold (addInputs stepOutputs) (SubSteps step) (addInputs stepOutputs step acc))
        steps dependsOn)"

subsection \<open>DAG: the recursion of \<^verbatim>\<open>findDependency\<close>\<close>

text \<open>
  \<^verbatim>\<open>findDependency\<close> calls itself for every entry that lists \<open>stepName\<close> and keeps no set
  of visited names, so it does not return on a map with a cycle below \<open>stepName\<close>. The
  model counts the depth of the recursion down from \<open>fuel\<close>; \<open>None\<close> says that the
  depth \<open>fuel\<close> was not enough. \<open>depsLoop\<close> is the loop over the \<^verbatim>\<open>deps\<close> of one entry,
  \<open>entriesLoop\<close> the loop over the entries; \<open>recur\<close> is the recursive call.
\<close>

fun depsLoop ::
  "(string \<Rightarrow> string list option) \<Rightarrow> string \<Rightarrow> string \<Rightarrow> string list \<Rightarrow> string list \<Rightarrow> string list option" where
  "depsLoop recur stepName step [] dependency = Some dependency"
| "depsLoop recur stepName step (dep # deps) dependency =
     (if dep = stepName then
        (case recur step of
           None \<Rightarrow> None
         | Some below \<Rightarrow> depsLoop recur stepName step deps ((dependency @ [step]) @ below))
      else depsLoop recur stepName step deps dependency)"

fun entriesLoop ::
  "(string \<Rightarrow> string list option) \<Rightarrow> string \<Rightarrow> dependsOnMap \<Rightarrow> string list \<Rightarrow> string list option" where
  "entriesLoop recur stepName [] dependency = Some dependency"
| "entriesLoop recur stepName ((step, deps) # entries) dependency =
     (case depsLoop recur stepName step deps dependency of
        None \<Rightarrow> None
      | Some dependency' \<Rightarrow> entriesLoop recur stepName entries dependency')"

fun findDependency :: "nat \<Rightarrow> string \<Rightarrow> dependsOnMap \<Rightarrow> string list option" where
  "findDependency 0 stepName dependsOn = None"
| "findDependency (Suc fuel) stepName dependsOn =
     entriesLoop (\<lambda>step. findDependency fuel step dependsOn) stepName dependsOn []"

definition getStepDependency :: "nat \<Rightarrow> WorkflowStep list \<Rightarrow> string \<Rightarrow> bool \<Rightarrow> string list option" where
  "getStepDependency fuel steps stepName dag =
     (if \<not> dag then Some (stepsAfter stepName steps)
      else findDependency fuel stepName (buildDependsOn steps))"

text \<open>
  The relation a map \<open>dependsOn\<close> stands for: \<open>(t, s)\<close> when the entry of \<open>t\<close> lists \<open>s\<close>.
  The steps that transitively list \<open>s\<close> are the \<open>t\<close> with \<open>(t, s)\<close> in its transitive
  closure.
\<close>

definition dependsRel :: "dependsOnMap \<Rightarrow> (string \<times> string) set" where
  "dependsRel dependsOn = {(t, s). \<exists>deps. (t, deps) \<in> set dependsOn \<and> s \<in> set deps}"

section \<open>Deleting step statuses\<close>

fun deleteStepStatus ::
  "string list \<Rightarrow> WorkflowStepStatus list \<Rightarrow> string \<Rightarrow> bool \<Rightarrow> WorkflowStepStatus list" where
  "deleteStepStatus dependency [] stepName inGroup = []"
| "deleteStepStatus dependency (step # steps) stepName inGroup =
     (if inGroup \<and> \<not> stringsContain dependency (StepStatus.Name step)
      then step # deleteStepStatus dependency steps stepName inGroup
      else if \<not> inGroup \<and> \<not> stringsContain dependency (StepStatus.Name step) \<and> StepStatus.Name step \<noteq> stepName
      then step # deleteStepStatus dependency steps stepName inGroup
      else deleteStepStatus dependency steps stepName inGroup)"

fun deleteSubStepStatus :: "string list \<Rightarrow> StepStatus list \<Rightarrow> string \<Rightarrow> StepStatus list" where
  "deleteSubStepStatus dependency [] stepName = []"
| "deleteSubStepStatus dependency (step # subSteps) stepName =
     (if \<not> stringsContain dependency (StepStatus.Name step) \<and> StepStatus.Name step \<noteq> stepName
      then step # deleteSubStepStatus dependency subSteps stepName
      else deleteSubStepStatus dependency subSteps stepName)"

section \<open>Clearing the context variables\<close>

text \<open>
  The part of the CUE syntax tree that \<^verbatim>\<open>clearContextVars\<close> looks at: a node is a struct
  literal or something else, a declaration of a struct literal is a field with a label
  or something else, the value of a field is opaque.
\<close>

datatype astLabel = Ident string | BasicLit string | OtherLabel string

datatype astDecl = Field astLabel string | OtherDecl string

datatype astNode = StructLit "astDecl list" | OtherNode string

text \<open>
  The functions of the CUE library and of \<^verbatim>\<open>pkg/cue\<close> that the code calls, taken as
  parameters: \<open>newValue\<close> is \<^verbatim>\<open>value.NewValue\<close> followed by
  \<^verbatim>\<open>CueValue().Syntax(cue.ResolveReferences(true))\<close> (a value is identified with its
  syntax tree), \<open>LabelStr\<close> is \<^verbatim>\<open>sets.LabelStr\<close>, \<open>formatNode\<close> is \<^verbatim>\<open>format.Node\<close>.
\<close>

record cue =
  newValue :: "string \<Rightarrow> error + astNode"
  LabelStr :: "astLabel \<Rightarrow> string"
  formatNode :: "astNode \<Rightarrow> error + string"

text \<open>\<^verbatim>\<open>strings.Trim(s, `"`)\<close>: the double quotes at both ends are dropped.\<close>

definition trimQuotes :: "string \<Rightarrow> string" where
  "trimQuotes s = rev (dropWhile (\<lambda>c. c = CHR 0x22) (rev (dropWhile (\<lambda>c. c = CHR 0x22) s)))"

text \<open>The output names one step or substep adds to \<^verbatim>\<open>outputs\<close>.\<close>

definition outputsOfStep :: "string \<Rightarrow> string list \<Rightarrow> 'a WorkflowStepBase_scheme \<Rightarrow> string list" where
  "outputsOfStep stepName dependency step =
     (if WorkflowStepBase.Name step = stepName \<or> stringsContain dependency (WorkflowStepBase.Name step)
      then map outputItem.Name (Outputs step) else [])"

fun collectOutputs :: "WorkflowStep list \<Rightarrow> string \<Rightarrow> string list \<Rightarrow> string list" where
  "collectOutputs [] stepName dependency = []"
| "collectOutputs (step # steps) stepName dependency =
     outputsOfStep stepName dependency step
     @ concat (map (outputsOfStep stepName dependency) (SubSteps step))
     @ collectOutputs steps stepName dependency"

text \<open>The label the code compares with the output names.\<close>

definition fieldLabel :: "cue \<Rightarrow> astLabel \<Rightarrow> string" where
  "fieldLabel q l = trimQuotes (LabelStr q l)"

text \<open>The loop over \<^verbatim>\<open>x.Elts\<close>: only fields are kept, and only those whose label is no output.\<close>

fun keepElts :: "cue \<Rightarrow> string list \<Rightarrow> astDecl list \<Rightarrow> astDecl list" where
  "keepElts q outputs [] = []"
| "keepElts q outputs (Field l v # elts) =
     (if \<not> stringsContain outputs (fieldLabel q l) then Field l v # keepElts q outputs elts
      else keepElts q outputs elts)"
| "keepElts q outputs (OtherDecl d # elts) = keepElts q outputs elts"

definition clearContextVars ::
  "cue \<Rightarrow> WorkflowStep list \<Rightarrow> astNode \<Rightarrow> string \<Rightarrow> string list \<Rightarrow> error + string" where
  "clearContextVars q steps node stepName dependency =
     (let outputs = collectOutputs steps stepName dependency in
      case node of
        StructLit elts \<Rightarrow> formatNode q (StructLit (keepElts q outputs elts))
      | OtherNode n \<Rightarrow> Inl ErrNotStructLit)"

section \<open>Restart\<close>

text \<open>
  The state of the loop of \<^verbatim>\<open>RestartFromStep\<close>. The local \<^verbatim>\<open>stepStatus\<close> is the slice
  \<^verbatim>\<open>run.Status.Steps\<close> as it was before the loop; \<open>runSteps\<close> is \<^verbatim>\<open>run.Status.Steps\<close> now.
  Until \<^verbatim>\<open>run.Status.Steps\<close> is assigned the result of \<^verbatim>\<open>deleteStepStatus\<close> the two are one
  array (\<open>shared\<close>), and an assignment to \<^verbatim>\<open>run.Status.Steps[i]\<close> changes \<^verbatim>\<open>stepStatus[i]\<close>
  too.
\<close>

record restartState =
  stepStatus :: "WorkflowStepStatus list"
  runSteps :: "WorkflowStepStatus list"
  shared :: bool
  dependency :: "string list"
  found :: bool

text \<open>
  The three assignments to \<^verbatim>\<open>run.Status.Steps[i]\<close> in the substep branch. The caller has
  checked that \<open>i\<close> is below the length of \<open>runSteps\<close>.
\<close>

definition resetGroup :: "nat \<Rightarrow> StepStatus list \<Rightarrow> restartState \<Rightarrow> restartState" where
  "resetGroup i subs st =
     (let steps' = (runSteps st)[i := (runSteps st ! i)\<lparr>Phase := WorkflowStepPhaseRunning,
                       Reason := [], SubStepsStatus := subs\<rparr>]
      in st\<lparr>runSteps := steps', stepStatus := (if shared st then steps' else stepStatus st)\<rparr>)"

text \<open>
  The loop \<^verbatim>\<open>for i, step := range stepStatus\<close>, with \<open>n\<close> iterations left and the index \<open>i\<close>.
  The result is \<open>None\<close> when a call of \<^const>\<open>getStepDependency\<close> runs out of fuel; else
  the error the function returns from inside the loop (if any) and the state. A match
  on a step ends the loop; a match on a substep ends the inner loop only, and the outer
  loop goes on.
\<close>

fun restartLoop ::
  "nat \<Rightarrow> WorkflowStep list \<Rightarrow> WorkflowExecuteMode \<Rightarrow> string \<Rightarrow> nat \<Rightarrow> nat \<Rightarrow> restartState
     \<Rightarrow> (error option \<times> restartState) option" where
  "restartLoop fuel steps mode stepName 0 i st = Some (None, st)"
| "restartLoop fuel steps mode stepName (Suc n) i st =
     (let step = stepStatus st ! i in
      if StepStatus.Name step = stepName then
        (if Phase step \<noteq> WorkflowStepPhaseFailed then Some (Some ErrNonFailedStep, st)
         else
           (case getStepDependency fuel steps stepName (WorkflowExecuteMode.Steps mode = WorkflowModeDAG) of
              None \<Rightarrow> None
            | Some dep \<Rightarrow>
                Some (None, st\<lparr>dependency := dep,
                               runSteps := deleteStepStatus dep (stepStatus st) stepName False,
                               shared := False, found := True\<rparr>)))
      else
        (case find (\<lambda>sub. StepStatus.Name sub = stepName) (SubStepsStatus step) of
           None \<Rightarrow> restartLoop fuel steps mode stepName n (Suc i) st
         | Some sub \<Rightarrow>
             (if Phase sub \<noteq> WorkflowStepPhaseFailed then Some (Some ErrNonFailedStep, st)
              else
                (case getStepDependency fuel steps stepName (WorkflowExecuteMode.SubSteps mode = WorkflowModeDAG) of
                   None \<Rightarrow> None
                 | Some subDependency \<Rightarrow>
                     (if length (runSteps st) \<le> i then Some (Some (Panic ''index out of range''), st)
                      else
                        (let st1 = resetGroup i (deleteSubStepStatus subDependency (SubStepsStatus step) stepName) st in
                         case getStepDependency fuel steps (StepStatus.Name step)
                                (WorkflowExecuteMode.Steps mode = WorkflowModeDAG) of
                           None \<Rightarrow> None
                         | Some stepDependency \<Rightarrow>
                             restartLoop fuel steps mode stepName n (Suc i)
                               (st1\<lparr>runSteps := deleteStepStatus stepDependency (stepStatus st1) stepName True,
                                    shared := False,
                                    dependency := mergeUniqueStringSlice subDependency stepDependency,
                                    found := True\<rparr>)))))))"

text \<open>The steps of the run: inline, or those of the workflow the run refers to.\<close>

definition specSteps :: "client \<Rightarrow> WorkflowRun \<Rightarrow> error + WorkflowStep list" where
  "specSteps c r =
     (case WorkflowSpec (Spec r) of
        Some spec \<Rightarrow> Inr (WorkflowSpec.Steps spec)
      | None \<Rightarrow>
          (case getWorkflow c (WorkflowRun.Namespace r, WorkflowRef (Spec r)) of
             Inl e \<Rightarrow> Inl e
           | Inr workflow \<Rightarrow> Inr (WorkflowSpec.Steps workflow)))"

text \<open>A read of a key of \<^verbatim>\<open>cm.Data\<close>: the empty string for an absent key and for the nil map.\<close>

definition dataAt :: "(string \<times> string) list option \<Rightarrow> string \<Rightarrow> string" where
  "dataAt d k = (case d of None \<Rightarrow> [] | Some m \<Rightarrow> (case map_of m k of None \<Rightarrow> [] | Some v \<Rightarrow> v))"

text \<open>The end of \<^verbatim>\<open>RestartFromStep\<close>: the outputs of the restarted steps leave the context.\<close>

definition clearContext ::
  "cue \<Rightarrow> client \<Rightarrow> WorkflowRun \<Rightarrow> WorkflowStep list \<Rightarrow> string \<Rightarrow> string list \<Rightarrow> result" where
  "clearContext q c r steps stepName dep =
     (let done = \<lparr>err = None, run = r, calls = [StatusUpdate r]\<rparr> in
      case ContextBackend (Status r) of
        None \<Rightarrow> done
      | Some backend \<Rightarrow>
          (case getConfigMap c (WorkflowRun.Namespace r, ObjectReference.Name backend) of
             Inl e \<Rightarrow> done\<lparr>err := Some e\<rparr>
           | Inr cm \<Rightarrow>
               (case newValue q (dataAt (Data cm) ConfigMapKeyVars) of
                  Inl e \<Rightarrow> done\<lparr>err := Some e\<rparr>
                | Inr v \<Rightarrow>
                    (case clearContextVars q steps v stepName dep of
                       Inl e \<Rightarrow> done\<lparr>err := Some e\<rparr>
                     | Inr s \<Rightarrow>
                         (case Data cm of
                            None \<Rightarrow> done\<lparr>err := Some (Panic ''assignment to entry in nil map'')\<rparr>
                          | Some d \<Rightarrow>
                              (let cm' = cm\<lparr>Data := Some (AList.update ConfigMapKeyVars s d)\<rparr> in
                               \<lparr>err = send c (UpdateConfigMap cm'), run = r,
                                calls = [StatusUpdate r, UpdateConfigMap cm']\<rparr>))))))"

definition RestartFromStep :: "nat \<Rightarrow> cue \<Rightarrow> client \<Rightarrow> WorkflowRun \<Rightarrow> string \<Rightarrow> result option" where
  "RestartFromStep fuel q c r stepName =
     (if stepName = [] then Some \<lparr>err = Some ErrStepNameEmpty, run = r, calls = []\<rparr>
      else
        (let r1 = r\<lparr>Status := (Status r)\<lparr>Terminated := False, Suspend := False,
                       Finished := False, EndTime := None\<rparr>\<rparr>
         in case specSteps c r1 of
              Inl e \<Rightarrow> Some \<lparr>err = Some e, run = r1, calls = []\<rparr>
            | Inr steps \<Rightarrow>
                (case restartLoop fuel steps (WorkflowRunStatus.Mode (Status r1)) stepName
                        (length (WorkflowRunStatus.Steps (Status r1))) 0
                        \<lparr>stepStatus = WorkflowRunStatus.Steps (Status r1),
                         runSteps = WorkflowRunStatus.Steps (Status r1),
                         shared = True, dependency = [], found = False\<rparr> of
                   None \<Rightarrow> None
                 | Some (e, st) \<Rightarrow>
                     (let r2 = r1\<lparr>Status := (Status r1)\<lparr>WorkflowRunStatus.Steps := runSteps st\<rparr>\<rparr> in
                      case e of
                        Some e' \<Rightarrow> Some \<lparr>err = Some e', run = r2, calls = []\<rparr>
                      | None \<Rightarrow>
                          (if \<not> found st then
                             Some \<lparr>err = Some (ErrStepNotFound stepName), run = r2, calls = []\<rparr>
                           else
                             (case send c (StatusUpdate r2) of
                                Some e' \<Rightarrow> Some \<lparr>err = Some e', run = r2, calls = [StatusUpdate r2]\<rparr>
                              | None \<Rightarrow> Some (clearContext q c r2 steps stepName (dependency st))))))))"

text \<open>The zero value of \<^verbatim>\<open>WorkflowRunStatus\<close>.\<close>

definition zeroStatus :: WorkflowRunStatus where
  "zeroStatus =
     \<lparr>WorkflowRunStatus.Mode = \<lparr>WorkflowExecuteMode.Steps = [], SubSteps = []\<rparr>,
      Suspend = False, Terminated = False, Finished = False, ContextBackend = None,
      WorkflowRunStatus.Steps = [], EndTime = None\<rparr>"

text \<open>The end of \<^verbatim>\<open>RestartWorkflow\<close> after the context object is dealt with.\<close>

definition resetStatus :: "client \<Rightarrow> WorkflowRun \<Rightarrow> request list \<Rightarrow> result" where
  "resetStatus c r made =
     (let r' = r\<lparr>Status := zeroStatus\<rparr> in
      \<lparr>err = send c (StatusUpdate r'), run = r', calls = made @ [StatusUpdate r']\<rparr>)"

definition RestartWorkflow :: "nat \<Rightarrow> cue \<Rightarrow> client \<Rightarrow> WorkflowRun \<Rightarrow> string \<Rightarrow> result option" where
  "RestartWorkflow fuel q c r step =
     (if step \<noteq> [] then RestartFromStep fuel q c r step
      else
        (case ContextBackend (Status r) of
           None \<Rightarrow> Some (resetStatus c r [])
         | Some backend \<Rightarrow>
             (case getConfigMap c (WorkflowRun.Namespace r, ObjectReference.Name backend) of
                Inr cm \<Rightarrow>
                  (case send c (DeleteConfigMap cm) of
                     Some e \<Rightarrow> Some \<lparr>err = Some e, run = r, calls = [DeleteConfigMap cm]\<rparr>
                   | None \<Rightarrow> Some (resetStatus c r [DeleteConfigMap cm]))
              | Inl e \<Rightarrow>
                  (if \<not> IsNotFound e then Some \<lparr>err = Some e, run = r, calls = []\<rparr>
                   else Some (resetStatus c r [])))))"

definition Restart :: "nat \<Rightarrow> cue \<Rightarrow> workflowRunOperator \<Rightarrow> string \<Rightarrow> result option" where
  "Restart fuel q wo step =
     (case RestartWorkflow fuel q (cli wo) (operatorRun wo) step of
        None \<Rightarrow> None
      | Some res \<Rightarrow>
          (case err res of
             Some e \<Rightarrow> Some res
           | None \<Rightarrow> Some (res\<lparr>err := writeOutputF wo (''Successfully restart workflow: '' @ WorkflowRun.Name (run res) @ [CHR 0x0A])\<rparr>)))"

section \<open>Step identifiers\<close>

text \<open>
  Modelled from the spec: \<^verbatim>\<open>utils.RandomString\<close>, which is not under the source files.
  The spec says that it mints a random identifier of the length it is given; the
  random source is the parameter \<open>rnd\<close>.
\<close>

definition RandomString :: "(nat \<Rightarrow> char) \<Rightarrow> nat \<Rightarrow> string" where
  "RandomString rnd n = map rnd [0..<n]"

text \<open>The loops of \<^verbatim>\<open>generateStepID\<close> and \<^verbatim>\<open>generateSubStepID\<close>; \<open>None\<close> is falling out of the loop.\<close>

fun findStepID :: "WorkflowStepStatus list \<Rightarrow> string \<Rightarrow> string option" where
  "findStepID [] name = None"
| "findStepID (ss # rest) name = (if StepStatus.Name ss = name then Some (ID ss) else findStepID rest name)"

fun findSubID :: "StepStatus list \<Rightarrow> string \<Rightarrow> string option" where
  "findSubID [] name = None"
| "findSubID (sub # rest) name = (if StepStatus.Name sub = name then Some (ID sub) else findSubID rest name)"

fun findSubStepID :: "WorkflowStepStatus list \<Rightarrow> string \<Rightarrow> string \<Rightarrow> string option" where
  "findSubStepID [] name parentStepName = None"
| "findSubStepID (ss # rest) name parentStepName =
     (if StepStatus.Name ss = parentStepName then
        (case findSubID (SubStepsStatus ss) name of
           Some i \<Rightarrow> Some i
         | None \<Rightarrow> findSubStepID rest name parentStepName)
      else findSubStepID rest name parentStepName)"

definition generateStepID :: "(nat \<Rightarrow> char) \<Rightarrow> WorkflowRunStatus \<Rightarrow> string \<Rightarrow> string" where
  "generateStepID rnd status name =
     (case findStepID (WorkflowRunStatus.Steps status) name of
        Some i \<Rightarrow> i
      | None \<Rightarrow> RandomString rnd 10)"

definition generateSubStepID :: "(nat \<Rightarrow> char) \<Rightarrow> WorkflowRunStatus \<Rightarrow> string \<Rightarrow> string \<Rightarrow> string" where
  "generateSubStepID rnd status name parentStepName =
     (case findSubStepID (WorkflowRunStatus.Steps status) name parentStepName of
        Some i \<Rightarrow> i
      | None \<Rightarrow> RandomString rnd 10)"

section \<open>What the operations are to guarantee\<close>

text \<open>
  The notions the properties below are stated with. They follow the words of the
  specification and are not part of the program.
\<close>

text \<open>All declared steps and substeps, in the order of declaration, as plain steps.\<close>

definition declaredSteps :: "WorkflowStep list \<Rightarrow> WorkflowStepBase list" where
  "declaredSteps steps = concat (map (\<lambda>step. WorkflowStepBase.truncate step # SubSteps step) steps)"

text \<open>The status entries of a run in the order in which \<^verbatim>\<open>RestartFromStep\<close> looks at them: each step, then its substeps.\<close>

definition statusEntries :: "WorkflowStepStatus list \<Rightarrow> StepStatus list" where
  "statusEntries sts = concat (map (\<lambda>st. StepStatus.truncate st # SubStepsStatus st) sts)"

text \<open>A step carries the name \<open>stepName\<close> itself or in one of its substeps.\<close>

definition namesStep :: "string \<Rightarrow> WorkflowStep \<Rightarrow> bool" where
  "namesStep stepName step \<longleftrightarrow>
     WorkflowStepBase.Name step = stepName \<or> stepName \<in> WorkflowStepBase.Name ` set (SubSteps step)"

text \<open>A status entry carries the name \<open>stepName\<close> itself or in one of its substeps.\<close>

definition mentions :: "string \<Rightarrow> WorkflowStepStatus \<Rightarrow> bool" where
  "mentions stepName e \<longleftrightarrow>
     StepStatus.Name e = stepName \<or> stepName \<in> StepStatus.Name ` set (SubStepsStatus e)"

text \<open>
  What terminating does to one status entry, in the words of the specification: a
  running entry is failed with the reason Terminate; a failed entry stays failed and
  keeps its reason when that is FailedAfterRetries or Timeout, else its reason becomes
  Terminate; an entry in any other phase keeps phase and reason; nothing else changes.
\<close>

definition terminatedEntry :: "'a StepStatus_scheme \<Rightarrow> 'a StepStatus_scheme \<Rightarrow> bool" where
  "terminatedEntry old new \<longleftrightarrow>
     (Phase old = WorkflowStepPhaseRunning \<longrightarrow>
        Phase new = WorkflowStepPhaseFailed \<and> Reason new = StatusReasonTerminate) \<and>
     (Phase old = WorkflowStepPhaseFailed \<longrightarrow>
        Phase new = WorkflowStepPhaseFailed \<and>
        Reason new = (if Reason old = StatusReasonFailedAfterRetries \<or> Reason old = StatusReasonTimeout
                      then Reason old else StatusReasonTerminate)) \<and>
     (Phase old \<noteq> WorkflowStepPhaseRunning \<and> Phase old \<noteq> WorkflowStepPhaseFailed \<longrightarrow>
        Phase new = Phase old \<and> Reason new = Reason old) \<and>
     ID new = ID old \<and> StepStatus.Name new = StepStatus.Name old \<and>
     StepStatus.Type new = StepStatus.Type old \<and> Message new = Message old \<and>
     FirstExecuteTime new = FirstExecuteTime old \<and> LastExecuteTime new = LastExecuteTime old"

text \<open>
  What resuming does to one status entry as the specification words it: an entry of
  type suspend in the phase Suspending becomes succeeded, any other entry keeps its phase.
\<close>

definition claimedResumeEntry :: "'a StepStatus_scheme \<Rightarrow> 'a StepStatus_scheme \<Rightarrow> bool" where
  "claimedResumeEntry old new \<longleftrightarrow>
     (if StepStatus.Type old = WorkflowStepTypeSuspend \<and> Phase old = WorkflowStepPhaseSuspending
      then Phase new = WorkflowStepPhaseSucceeded else Phase new = Phase old)"

text \<open>
  What \<^verbatim>\<open>ResumeWorkflow\<close> does to one status entry: an entry of type suspend in the phase
  \<^verbatim>\<open>WorkflowStepPhaseRunning\<close> becomes succeeded, any other entry keeps its phase; nothing
  else changes.
\<close>

definition resumedEntry :: "'a StepStatus_scheme \<Rightarrow> 'a StepStatus_scheme \<Rightarrow> bool" where
  "resumedEntry old new \<longleftrightarrow>
     (if StepStatus.Type old = WorkflowStepTypeSuspend \<and> Phase old = WorkflowStepPhaseRunning
      then Phase new = WorkflowStepPhaseSucceeded else Phase new = Phase old) \<and>
     ID new = ID old \<and> StepStatus.Name new = StepStatus.Name old \<and>
     StepStatus.Type new = StepStatus.Type old \<and> Message new = Message old \<and>
     Reason new = Reason old \<and>
     FirstExecuteTime new = FirstExecuteTime old \<and> LastExecuteTime new = LastExecuteTime old"

text \<open>The run after a restart from a step: the four flags are cleared and the steps replaced.\<close>

definition restarted :: "WorkflowRun \<Rightarrow> WorkflowStepStatus list \<Rightarrow> WorkflowRun" where
  "restarted r sts =
     r\<lparr>Status := (Status r)\<lparr>Terminated := False, Suspend := False, Finished := False,
                   EndTime := None, WorkflowRunStatus.Steps := sts\<rparr>\<rparr>"

text \<open>The output names of the step \<open>stepName\<close> and of the steps and substeps listed in \<open>deps\<close>.\<close>

definition clearedOutputs :: "WorkflowStep list \<Rightarrow> string \<Rightarrow> string list \<Rightarrow> string set" where
  "clearedOutputs steps stepName deps =
     {x. \<exists>b \<in> set (declaredSteps steps).
           (WorkflowStepBase.Name b = stepName \<or> WorkflowStepBase.Name b \<in> set deps) \<and>
           x \<in> outputItem.Name ` set (Outputs b)}"

text \<open>
  The test of the loop over \<^verbatim>\<open>x.Elts\<close> as a predicate, with the label as the code computes
  it; it serves the proofs only.
\<close>

definition keptField :: "cue \<Rightarrow> string set \<Rightarrow> astDecl \<Rightarrow> bool" where
  "keptField q cleared d = (case d of Field l v \<Rightarrow> fieldLabel q l \<notin> cleared | OtherDecl x \<Rightarrow> False)"

text \<open>The names of the outputs a step declares.\<close>

definition outputNames :: "'a WorkflowStepBase_scheme \<Rightarrow> string set" where
  "outputNames b = outputItem.Name ` set (Outputs b)"

text \<open>No output name is declared by two steps of different names.\<close>

definition uniqueProducers :: "WorkflowStep list \<Rightarrow> bool" where
  "uniqueProducers steps \<longleftrightarrow>
     (\<forall>p1 \<in> set (declaredSteps steps). \<forall>p2 \<in> set (declaredSteps steps).
        outputNames p1 \<inter> outputNames p2 \<noteq> {} \<longrightarrow> WorkflowStepBase.Name p1 = WorkflowStepBase.Name p2)"

text \<open>The names of the steps that declare an output which \<open>b\<close> reads as an input.\<close>

definition producersOf :: "WorkflowStep list \<Rightarrow> WorkflowStepBase \<Rightarrow> string set" where
  "producersOf steps b =
     {p. \<exists>d \<in> set (declaredSteps steps). WorkflowStepBase.Name d = p \<and>
           (\<exists>input \<in> set (Inputs b). From input \<in> outputNames d)}"

text \<open>The part of \<^const>\<open>recordStep\<close> that fills \<^verbatim>\<open>stepOutputs\<close>, for a plain step.\<close>

definition recordOutputs :: "WorkflowStepBase \<Rightarrow> stepOutputsMap \<Rightarrow> stepOutputsMap" where
  "recordOutputs b = fold (\<lambda>output. AList.update (outputItem.Name output) (WorkflowStepBase.Name b)) (Outputs b)"

section \<open>Concrete runs\<close>

text \<open>Short forms for writing down a status entry, a step and a run.\<close>

definition mkStatus :: "string \<Rightarrow> string \<Rightarrow> string \<Rightarrow> string \<Rightarrow> string \<Rightarrow> StepStatus" where
  "mkStatus i n t p rs = \<lparr>ID = i, StepStatus.Name = n, StepStatus.Type = t, Phase = p, Message = [],
     Reason = rs, FirstExecuteTime = None, LastExecuteTime = None\<rparr>"

definition mkStepStatus :: "StepStatus \<Rightarrow> StepStatus list \<Rightarrow> WorkflowStepStatus" where
  "mkStepStatus s subs = StepStatus.extend s \<lparr>SubStepsStatus = subs\<rparr>"

definition mkBase :: "string \<Rightarrow> string \<Rightarrow> string list \<Rightarrow> string list \<Rightarrow> string list \<Rightarrow> WorkflowStepBase" where
  "mkBase n t deps ins outs = \<lparr>WorkflowStepBase.Name = n, WorkflowStepBase.Type = t, If = [], Timeout = [],
     DependsOn = deps, Inputs = map (\<lambda>f. \<lparr>From = f, ParameterKey = []\<rparr>) ins,
     Outputs = map (\<lambda>x. \<lparr>outputItem.Name = x, ValueFrom = []\<rparr>) outs, Properties = []\<rparr>"

definition mkStep :: "WorkflowStepBase \<Rightarrow> WorkflowStepBase list \<Rightarrow> WorkflowStep" where
  "mkStep b subs = WorkflowStepBase.extend b \<lparr>SubSteps = subs\<rparr>"

definition mkRun :: "WorkflowStep list \<Rightarrow> WorkflowRunStatus \<Rightarrow> WorkflowRun" where
  "mkRun steps st = \<lparr>WorkflowRun.Name = ''demo'', WorkflowRun.Namespace = ''default'',
     Spec = \<lparr>WorkflowRunSpec.Mode = None, WorkflowSpec = Some \<lparr>WorkflowSpec.Steps = steps\<rparr>, WorkflowRef = []\<rparr>,
     Status = st\<rparr>"

definition mkRunStatus :: "string \<Rightarrow> string \<Rightarrow> bool \<Rightarrow> bool \<Rightarrow> WorkflowStepStatus list \<Rightarrow> WorkflowRunStatus" where
  "mkRunStatus m sm susp term sts =
     \<lparr>WorkflowRunStatus.Mode = \<lparr>WorkflowExecuteMode.Steps = m, SubSteps = sm\<rparr>,
      Suspend = susp, Terminated = term, Finished = False, ContextBackend = None,
      WorkflowRunStatus.Steps = sts, EndTime = None\<rparr>"

lemmas mk_defs = mkStatus_def mkStepStatus_def mkBase_def mkStep_def mkRun_def mkRunStatus_def
  StepStatus.extend_def WorkflowStepBase.extend_def

text \<open>A client whose calls all succeed and that finds no object.\<close>

definition quietClient :: client where
  "quietClient = \<lparr>getConfigMap = (\<lambda>k. Inl ErrNotFound), getWorkflow = (\<lambda>k. Inl ErrNotFound),
     send = (\<lambda>rq. None)\<rparr>"

text \<open>
  A suspended run with a running step, a pending step and a group that failed after
  its retries, whose substeps are running, failed in execution and timed out.
\<close>

definition terminateRun :: WorkflowRun where
  "terminateRun = mkRun []
     (mkRunStatus WorkflowModeDAG WorkflowModeDAG True False
        [mkStepStatus (mkStatus ''id1'' ''apply'' ''apply-object'' WorkflowStepPhaseRunning []) [],
         mkStepStatus (mkStatus ''id2'' ''notify'' ''notification'' WorkflowStepPhasePending []) [],
         mkStepStatus (mkStatus ''id3'' ''group'' WorkflowStepTypeStepGroup WorkflowStepPhaseFailed
                         StatusReasonFailedAfterRetries)
           [mkStatus ''id4'' ''sub1'' ''apply-object'' WorkflowStepPhaseRunning [],
            mkStatus ''id5'' ''sub2'' ''apply-object'' WorkflowStepPhaseFailed ''Execute'',
            mkStatus ''id6'' ''sub3'' ''apply-object'' WorkflowStepPhaseFailed StatusReasonTimeout]])"

text \<open>An operator with the quiet client and no output writer.\<close>

definition mkOperator :: "WorkflowRun \<Rightarrow> workflowRunOperator" where
  "mkOperator r = \<lparr>cli = quietClient, outputWriter = None, operatorRun = r\<rparr>"

text \<open>
  A suspended run: a step that succeeded, a suspend step that is running, a suspend
  step in the phase Suspending, and a pending step. The second run is terminated.
\<close>

definition resumeRun :: WorkflowRun where
  "resumeRun = mkRun []
     (mkRunStatus WorkflowModeStep WorkflowModeDAG True False
        [mkStepStatus (mkStatus ''id1'' ''notify'' ''notification'' WorkflowStepPhaseSucceeded []) [],
         mkStepStatus (mkStatus ''id2'' ''wait'' WorkflowStepTypeSuspend WorkflowStepPhaseRunning []) [],
         mkStepStatus (mkStatus ''id3'' ''hold'' WorkflowStepTypeSuspend WorkflowStepPhaseSuspending []) [],
         mkStepStatus (mkStatus ''id4'' ''apply'' ''apply-object'' WorkflowStepPhasePending []) []])"

definition terminatedRun :: WorkflowRun where
  "terminatedRun = mkRun []
     (mkRunStatus WorkflowModeStep WorkflowModeDAG True True
        [mkStepStatus (mkStatus ''id2'' ''wait'' WorkflowStepTypeSuspend WorkflowStepPhaseRunning []) []])"

text \<open>
  Declared steps: \<open>A\<close> with the output \<open>x\<close>; \<open>B\<close>, which reads \<open>x\<close>; the group \<open>G\<close>, which
  depends on \<open>B\<close> and has the substeps \<open>g1\<close> (output \<open>y\<close>), \<open>g2\<close> (depends on \<open>g1\<close>) and
  \<open>g3\<close> (reads \<open>y\<close>, output \<open>z\<close>); and \<open>C\<close>, which depends on \<open>G\<close>.
\<close>

definition pipeline :: "WorkflowStep list" where
  "pipeline =
     [mkStep (mkBase ''A'' ''apply-object'' [] [] [''x'']) [],
      mkStep (mkBase ''B'' ''apply-object'' [] [''x''] []) [],
      mkStep (mkBase ''G'' WorkflowStepTypeStepGroup [''B''] [] [])
        [mkBase ''g1'' ''apply-object'' [] [] [''y''],
         mkBase ''g2'' ''apply-object'' [''g1''] [] [],
         mkBase ''g3'' ''apply-object'' [] [''y''] [''z'']],
      mkStep (mkBase ''C'' ''notification'' [''G''] [] []) []]"

text \<open>A status that records identifiers for the step \<open>A\<close> and for the group \<open>G\<close> with two substeps.\<close>

definition recordedRun :: WorkflowRunStatus where
  "recordedRun = mkRunStatus WorkflowModeDAG WorkflowModeDAG False False
     [mkStepStatus (mkStatus ''k3f9x2m1qa'' ''A'' ''apply-object'' WorkflowStepPhaseSucceeded []) [],
      mkStepStatus (mkStatus ''p0o9i8u7y6'' ''G'' WorkflowStepTypeStepGroup WorkflowStepPhaseRunning [])
        [mkStatus ''t5r4e3w2q1'' ''g1'' ''apply-object'' WorkflowStepPhaseSucceeded [],
         mkStatus ''z1x2c3v4b5'' ''g2'' ''apply-object'' WorkflowStepPhaseRunning []]]"

text \<open>A client that finds the context object of the run \<open>demo\<close> and whose calls all succeed.\<close>

definition contextClient :: client where
  "contextClient =
     \<lparr>getConfigMap = (\<lambda>k. if k = (''default'', ''workflow-demo-context'')
          then Inr \<lparr>ConfigMap.Name = ''workflow-demo-context'', ConfigMap.Namespace = ''default'',
                    Data = Some [(''vars'', ''x: 1'')]\<rparr>
          else Inl ErrNotFound),
      getWorkflow = (\<lambda>k. Inl ErrNotFound),
      send = (\<lambda>rq. None)\<rparr>"

text \<open>A terminated run with a context object, whose second step failed.\<close>

definition finishedRun :: WorkflowRun where
  "finishedRun = mkRun pipeline
     ((mkRunStatus WorkflowModeStep WorkflowModeDAG False True
        [mkStepStatus (mkStatus ''id1'' ''A'' ''apply-object'' WorkflowStepPhaseSucceeded []) [],
         mkStepStatus (mkStatus ''id2'' ''B'' ''apply-object'' WorkflowStepPhaseFailed StatusReasonTerminate) []])
      \<lparr>ContextBackend := Some \<lparr>ObjectReference.Name = ''workflow-demo-context''\<rparr>, EndTime := Some 1700000000\<rparr>)"

text \<open>A CUE library whose values are all the empty struct.\<close>

definition cueStub :: cue where
  "cueStub = \<lparr>newValue = (\<lambda>s. Inr (StructLit [])), LabelStr = (\<lambda>l. case l of Ident n \<Rightarrow> n | BasicLit v \<Rightarrow> v | OtherLabel x \<Rightarrow> []),
     formatNode = (\<lambda>n. Inr [])\<rparr>"

text \<open>A run in which nothing has failed.\<close>

definition pendingRun :: WorkflowRun where
  "pendingRun = mkRun pipeline
     (mkRunStatus WorkflowModeStep WorkflowModeStep True True
        [mkStepStatus (mkStatus ''id1'' ''A'' ''apply-object'' WorkflowStepPhaseSucceeded []) [],
         mkStepStatus (mkStatus ''id2'' ''B'' ''apply-object'' WorkflowStepPhaseSucceeded []) [],
         mkStepStatus (mkStatus ''id3'' ''G'' WorkflowStepTypeStepGroup WorkflowStepPhaseRunning [])
           [mkStatus ''id4'' ''g1'' ''apply-object'' WorkflowStepPhaseSucceeded [],
            mkStatus ''id5'' ''g2'' ''apply-object'' WorkflowStepPhaseRunning []]])"

text \<open>A document with the fields \<open>x\<close>, \<open>y\<close> (written in double quotes), \<open>keep\<close> and \<open>z\<close> and one declaration that is no field.\<close>

definition varsDocument :: "astDecl list" where
  "varsDocument =
     [Field (Ident ''x'') ''1'',
      Field (BasicLit (CHR 0x22 # ''y'' @ [CHR 0x22])) ''2'',
      Field (Ident ''keep'') ''3'',
      OtherDecl ''...'',
      Field (Ident ''z'') ''4'']"

text \<open>A map without a cycle: \<open>B\<close> lists \<open>A\<close>, and \<open>C\<close> lists \<open>B\<close> and \<open>A\<close>.\<close>

definition chainMap :: dependsOnMap where
  "chainMap = [(''A'', []), (''B'', [''A'']), (''C'', [''B'', ''A''])]"

text \<open>A map with a cycle: \<open>A\<close> and \<open>B\<close> list each other.\<close>

definition cycleMap :: dependsOnMap where
  "cycleMap = [(''A'', [''B'']), (''B'', [''A''])]"

text \<open>A source of characters for \<^const>\<open>RandomString\<close>.\<close>

definition sampleRandom :: "nat \<Rightarrow> char" where
  "sampleRandom i = (if even i then CHR ''a'' else CHR ''7'')"

text \<open>The pipeline run step by step: \<open>A\<close> succeeded, \<open>B\<close> failed, \<open>G\<close> and \<open>C\<close> are pending.\<close>

definition failedRun :: WorkflowRun where
  "failedRun = mkRun pipeline
     ((mkRunStatus WorkflowModeStep WorkflowModeStep True True
        [mkStepStatus (mkStatus ''id1'' ''A'' ''apply-object'' WorkflowStepPhaseSucceeded []) [],
         mkStepStatus (mkStatus ''id2'' ''B'' ''apply-object'' WorkflowStepPhaseFailed StatusReasonFailedAfterRetries) [],
         mkStepStatus (mkStatus ''id3'' ''G'' WorkflowStepTypeStepGroup WorkflowStepPhasePending []) [],
         mkStepStatus (mkStatus ''id7'' ''C'' ''notification'' WorkflowStepPhasePending []) []])
      \<lparr>Finished := True, EndTime := Some 1700000000\<rparr>)"

text \<open>The pipeline run step by step: in the group \<open>G\<close> the substep \<open>g2\<close> failed.\<close>

definition failedGroupRun :: WorkflowRun where
  "failedGroupRun = mkRun pipeline
     (mkRunStatus WorkflowModeStep WorkflowModeStep False True
        [mkStepStatus (mkStatus ''id1'' ''A'' ''apply-object'' WorkflowStepPhaseSucceeded []) [],
         mkStepStatus (mkStatus ''id2'' ''B'' ''apply-object'' WorkflowStepPhaseSucceeded []) [],
         mkStepStatus (mkStatus ''id3'' ''G'' WorkflowStepTypeStepGroup WorkflowStepPhaseFailed StatusReasonTerminate)
           [mkStatus ''id4'' ''g1'' ''apply-object'' WorkflowStepPhaseSucceeded [],
            mkStatus ''id5'' ''g2'' ''apply-object'' WorkflowStepPhaseFailed StatusReasonTimeout,
            mkStatus ''id6'' ''g3'' ''apply-object'' WorkflowStepPhasePending []],
         mkStepStatus (mkStatus ''id7'' ''C'' ''notification'' WorkflowStepPhasePending []) []])"

text \<open>Declared steps in which a substep reads the output of a step outside its group: \<open>g1\<close> in the group \<open>G\<close> reads \<open>x\<close> of \<open>A\<close>, and \<open>G\<close> itself depends on nothing.\<close>

definition nestedSteps :: "WorkflowStep list" where
  "nestedSteps =
     [mkStep (mkBase ''A'' ''apply-object'' [] [] [''x'']) [],
      mkStep (mkBase ''G'' WorkflowStepTypeStepGroup [] [] [])
        [mkBase ''g1'' ''apply-object'' [] [''x''] []]]"

text \<open>A run of these steps in DAG mode in which \<open>A\<close> failed.\<close>

definition nestedRun :: WorkflowRun where
  "nestedRun = mkRun nestedSteps
     (mkRunStatus WorkflowModeDAG WorkflowModeDAG False False
        [mkStepStatus (mkStatus ''id1'' ''A'' ''apply-object'' WorkflowStepPhaseFailed StatusReasonFailedAfterRetries) [],
         mkStepStatus (mkStatus ''id2'' ''G'' WorkflowStepTypeStepGroup WorkflowStepPhaseFailed [])
           [mkStatus ''id3'' ''g1'' ''apply-object'' WorkflowStepPhaseFailed ''InputLookupFailed'']])"

text \<open>
  A CUE library that prints a struct literal field by field, so that different structs
  print differently; \<open>LabelStr\<close> gives the name of an identifier and the text of a literal.
\<close>

definition cuePrinter :: cue where
  "cuePrinter =
     \<lparr>newValue = (\<lambda>s. Inr (StructLit [])),
      LabelStr = (\<lambda>l. case l of Ident n \<Rightarrow> n | BasicLit v \<Rightarrow> v | OtherLabel x \<Rightarrow> []),
      formatNode = (\<lambda>node. case node of
          StructLit elts \<Rightarrow>
            Inr (concat (map (\<lambda>d. case d of
                                   Field l v \<Rightarrow>
                                     (case l of Ident n \<Rightarrow> n | BasicLit t \<Rightarrow> t | OtherLabel x \<Rightarrow> x) @ '': '' @ v @ ''; ''
                                 | OtherDecl x \<Rightarrow> x @ ''; '') elts))
        | OtherNode n \<Rightarrow> Inr n)\<rparr>"

text \<open>Declared steps in which two steps declare the output \<open>o\<close> that \<open>V\<close> reads.\<close>

definition sharedOutputSteps :: "WorkflowStep list" where
  "sharedOutputSteps =
     [mkStep (mkBase ''P1'' ''apply-object'' [] [] [''o'']) [],
      mkStep (mkBase ''P2'' ''apply-object'' [] [] [''o'']) [],
      mkStep (mkBase ''V'' ''apply-object'' [] [''o''] []) []]"

text \<open>
  Declared steps in which two groups each have a substep called \<open>s\<close>; the first one
  depends on \<open>a\<close>.
\<close>

definition shadowedSteps :: "WorkflowStep list" where
  "shadowedSteps =
     [mkStep (mkBase ''a'' ''apply-object'' [] [] []) [],
      mkStep (mkBase ''G1'' WorkflowStepTypeStepGroup [] [] [])
        [mkBase ''s'' ''apply-object'' [''a''] [] []],
      mkStep (mkBase ''G2'' WorkflowStepTypeStepGroup [] [] [])
        [mkBase ''s'' ''apply-object'' [] [] []]]"

section \<open>Properties of the operations\<close>

subsection \<open>Terminate\<close>

lemma terminateSwitch_entry: "terminatedEntry s (terminateSwitch s)"
  by (simp add: terminatedEntry_def terminateSwitch_def constant_defs)

lemma terminateStep_entry: "terminatedEntry s (terminateStep s)"
  using terminateSwitch_entry[of s]
  by (simp add: terminatedEntry_def terminateStep_def)

text \<open>
  Claim C1. For every run and every client, after \<^verbatim>\<open>TerminateWorkflow\<close> the status of the
  run has \<open>Terminated\<close> set and \<open>Suspend\<close> cleared; it has as many steps as before, and
  each step and each substep is changed as \<^const>\<open>terminatedEntry\<close> says: running
  becomes failed with the reason Terminate, failed keeps the reasons FailedAfterRetries
  and Timeout and gets the reason Terminate otherwise, any other phase (pending, say)
  is left as it is.
\<close>

theorem TerminateWorkflow_status:
  "Terminated (Status (run (TerminateWorkflow c r))) \<and>
   \<not> Suspend (Status (run (TerminateWorkflow c r))) \<and>
   length (WorkflowRunStatus.Steps (Status (run (TerminateWorkflow c r))))
     = length (WorkflowRunStatus.Steps (Status r)) \<and>
   (\<forall>i < length (WorkflowRunStatus.Steps (Status r)).
      terminatedEntry (WorkflowRunStatus.Steps (Status r) ! i)
        (WorkflowRunStatus.Steps (Status (run (TerminateWorkflow c r))) ! i) \<and>
      length (SubStepsStatus (WorkflowRunStatus.Steps (Status (run (TerminateWorkflow c r))) ! i))
        = length (SubStepsStatus (WorkflowRunStatus.Steps (Status r) ! i)) \<and>
      (\<forall>j < length (SubStepsStatus (WorkflowRunStatus.Steps (Status r) ! i)).
         terminatedEntry (SubStepsStatus (WorkflowRunStatus.Steps (Status r) ! i) ! j)
           (SubStepsStatus (WorkflowRunStatus.Steps (Status (run (TerminateWorkflow c r))) ! i) ! j)))"
  by (simp add: TerminateWorkflow_def Let_def terminateStep_entry terminateSwitch_entry)
     (simp add: terminateStep_def terminateSwitch_entry)

theorem TerminateWorkflow_status_witness:
  "Terminated (Status (run (TerminateWorkflow quietClient terminateRun))) \<and>
   \<not> Suspend (Status (run (TerminateWorkflow quietClient terminateRun))) \<and>
   map Phase (WorkflowRunStatus.Steps (Status (run (TerminateWorkflow quietClient terminateRun))))
     = [WorkflowStepPhaseFailed, WorkflowStepPhasePending, WorkflowStepPhaseFailed] \<and>
   map Reason (WorkflowRunStatus.Steps (Status (run (TerminateWorkflow quietClient terminateRun))))
     = [StatusReasonTerminate, [], StatusReasonFailedAfterRetries] \<and>
   map Phase (SubStepsStatus (WorkflowRunStatus.Steps (Status (run (TerminateWorkflow quietClient terminateRun))) ! 2))
     = [WorkflowStepPhaseFailed, WorkflowStepPhaseFailed, WorkflowStepPhaseFailed] \<and>
   map Reason (SubStepsStatus (WorkflowRunStatus.Steps (Status (run (TerminateWorkflow quietClient terminateRun))) ! 2))
     = [StatusReasonTerminate, StatusReasonTerminate, StatusReasonTimeout]"
  using TerminateWorkflow_status[of quietClient terminateRun]
  by (simp add: TerminateWorkflow_def Let_def terminateRun_def mk_defs terminateStep_def
      terminateSwitch_def constant_defs)

subsection \<open>Resume\<close>

lemma resumeSwitch_entry: "resumedEntry s (resumeSwitch s)"
  by (simp add: resumedEntry_def resumeSwitch_def)

lemma resumeStep_entry: "resumedEntry s (resumeStep s)"
  using resumeSwitch_entry[of s] by (simp add: resumedEntry_def resumeStep_def)

lemma Resume_terminated:
  "Terminated (Status (operatorRun wo)) \<Longrightarrow>
   Resume wo = \<lparr>err = Some ErrResumeTerminated, run = operatorRun wo, calls = []\<rparr>"
  by (simp add: Resume_def Let_def)

lemma Resume_not_suspended:
  "\<not> Terminated (Status (operatorRun wo)) \<Longrightarrow> \<not> Suspend (Status (operatorRun wo)) \<Longrightarrow>
   run (Resume wo) = operatorRun wo \<and> calls (Resume wo) = []"
  by (simp add: Resume_def Let_def)

lemma Resume_suspended_run:
  "\<not> Terminated (Status (operatorRun wo)) \<Longrightarrow> Suspend (Status (operatorRun wo)) \<Longrightarrow>
   run (Resume wo) = (operatorRun wo)\<lparr>Status := (Status (operatorRun wo))\<lparr>Suspend := False,
        WorkflowRunStatus.Steps := map resumeStep (WorkflowRunStatus.Steps (Status (operatorRun wo)))\<rparr>\<rparr>"
  by (simp add: Resume_def ResumeWorkflow_def Let_def split: option.splits)

text \<open>
  Claim C2, amended. \<^verbatim>\<open>Resume\<close> on a terminated run returns the error, leaves the run as it
  is and makes no call. On a run that is neither terminated nor suspended it changes
  nothing. On a suspended run that is not terminated it clears \<open>Suspend\<close>, and every
  step and substep of type suspend whose phase is Running (not Suspending) becomes
  succeeded, while every other entry keeps its phase.
\<close>

theorem Resume_status:
  "(Terminated (Status (operatorRun wo)) \<longrightarrow>
      err (Resume wo) = Some ErrResumeTerminated \<and> run (Resume wo) = operatorRun wo \<and> calls (Resume wo) = []) \<and>
   (\<not> Terminated (Status (operatorRun wo)) \<and> \<not> Suspend (Status (operatorRun wo)) \<longrightarrow>
      run (Resume wo) = operatorRun wo \<and> calls (Resume wo) = []) \<and>
   (\<not> Terminated (Status (operatorRun wo)) \<and> Suspend (Status (operatorRun wo)) \<longrightarrow>
      \<not> Suspend (Status (run (Resume wo))) \<and>
      length (WorkflowRunStatus.Steps (Status (run (Resume wo))))
        = length (WorkflowRunStatus.Steps (Status (operatorRun wo))) \<and>
      (\<forall>i < length (WorkflowRunStatus.Steps (Status (operatorRun wo))).
         resumedEntry (WorkflowRunStatus.Steps (Status (operatorRun wo)) ! i)
           (WorkflowRunStatus.Steps (Status (run (Resume wo))) ! i) \<and>
         length (SubStepsStatus (WorkflowRunStatus.Steps (Status (run (Resume wo))) ! i))
           = length (SubStepsStatus (WorkflowRunStatus.Steps (Status (operatorRun wo)) ! i)) \<and>
         (\<forall>j < length (SubStepsStatus (WorkflowRunStatus.Steps (Status (operatorRun wo)) ! i)).
            resumedEntry (SubStepsStatus (WorkflowRunStatus.Steps (Status (operatorRun wo)) ! i) ! j)
              (SubStepsStatus (WorkflowRunStatus.Steps (Status (run (Resume wo))) ! i) ! j))))"
proof (intro conjI impI)
  assume "Terminated (Status (operatorRun wo))"
  then show "err (Resume wo) = Some ErrResumeTerminated" "run (Resume wo) = operatorRun wo"
    "calls (Resume wo) = []"
    by (simp_all add: Resume_terminated)
next
  assume "\<not> Terminated (Status (operatorRun wo)) \<and> \<not> Suspend (Status (operatorRun wo))"
  then show "run (Resume wo) = operatorRun wo" "calls (Resume wo) = []"
    by (simp_all add: Resume_not_suspended)
next
  assume a: "\<not> Terminated (Status (operatorRun wo)) \<and> Suspend (Status (operatorRun wo))"
  then have r: "run (Resume wo) = (operatorRun wo)\<lparr>Status := (Status (operatorRun wo))\<lparr>Suspend := False,
        WorkflowRunStatus.Steps := map resumeStep (WorkflowRunStatus.Steps (Status (operatorRun wo)))\<rparr>\<rparr>"
    by (simp add: Resume_suspended_run)
  show "\<not> Suspend (Status (run (Resume wo)))" by (simp add: r)
  show "length (WorkflowRunStatus.Steps (Status (run (Resume wo))))
        = length (WorkflowRunStatus.Steps (Status (operatorRun wo)))" by (simp add: r)
  show "\<forall>i < length (WorkflowRunStatus.Steps (Status (operatorRun wo))).
         resumedEntry (WorkflowRunStatus.Steps (Status (operatorRun wo)) ! i)
           (WorkflowRunStatus.Steps (Status (run (Resume wo))) ! i) \<and>
         length (SubStepsStatus (WorkflowRunStatus.Steps (Status (run (Resume wo))) ! i))
           = length (SubStepsStatus (WorkflowRunStatus.Steps (Status (operatorRun wo)) ! i)) \<and>
         (\<forall>j < length (SubStepsStatus (WorkflowRunStatus.Steps (Status (operatorRun wo)) ! i)).
            resumedEntry (SubStepsStatus (WorkflowRunStatus.Steps (Status (operatorRun wo)) ! i) ! j)
              (SubStepsStatus (WorkflowRunStatus.Steps (Status (run (Resume wo))) ! i) ! j))"
    by (simp add: r resumeStep_entry) (simp add: resumeStep_def resumeSwitch_entry)
qed

theorem Resume_status_witness:
  "err (Resume (mkOperator terminatedRun)) = Some ErrResumeTerminated \<and>
   run (Resume (mkOperator terminatedRun)) = terminatedRun \<and>
   calls (Resume (mkOperator terminatedRun)) = [] \<and>
   \<not> Suspend (Status (run (Resume (mkOperator resumeRun)))) \<and>
   map Phase (WorkflowRunStatus.Steps (Status (run (Resume (mkOperator resumeRun)))))
     = [WorkflowStepPhaseSucceeded, WorkflowStepPhaseSucceeded, WorkflowStepPhaseSuspending,
        WorkflowStepPhasePending]"
  using Resume_status[of "mkOperator terminatedRun"] Resume_status[of "mkOperator resumeRun"]
  by (simp add: Resume_def ResumeWorkflow_def Let_def mkOperator_def quietClient_def writeOutputF_def
      terminatedRun_def resumeRun_def mk_defs resumeStep_def resumeSwitch_def constant_defs)

text \<open>
  The claim as the specification states it fails on \<^const>\<open>resumeRun\<close>: the suspend step
  in the phase Suspending stays there, and the suspend step that is running does not
  keep its phase.
\<close>

theorem Resume_counterexample:
  "StepStatus.Type (WorkflowRunStatus.Steps (Status resumeRun) ! 2) = WorkflowStepTypeSuspend \<and>
   Phase (WorkflowRunStatus.Steps (Status resumeRun) ! 2) = WorkflowStepPhaseSuspending \<and>
   Phase (WorkflowRunStatus.Steps (Status (run (Resume (mkOperator resumeRun)))) ! 2)
     = WorkflowStepPhaseSuspending \<and>
   Phase (WorkflowRunStatus.Steps (Status resumeRun) ! 1) = WorkflowStepPhaseRunning \<and>
   Phase (WorkflowRunStatus.Steps (Status (run (Resume (mkOperator resumeRun)))) ! 1)
     = WorkflowStepPhaseSucceeded \<and>
   err (Resume (mkOperator resumeRun)) = None \<and>
   \<not> claimedResumeEntry
       (WorkflowRunStatus.Steps (Status resumeRun) ! 1)
       (WorkflowRunStatus.Steps (Status (run (Resume (mkOperator resumeRun)))) ! 1) \<and>
   \<not> claimedResumeEntry
       (WorkflowRunStatus.Steps (Status resumeRun) ! 2)
       (WorkflowRunStatus.Steps (Status (run (Resume (mkOperator resumeRun)))) ! 2)"
  by (simp add: claimedResumeEntry_def Resume_def ResumeWorkflow_def Let_def mkOperator_def
      quietClient_def writeOutputF_def resumeRun_def mk_defs resumeStep_def resumeSwitch_def
      constant_defs)

subsection \<open>Dependencies, step by step\<close>

lemma subStepsAfter_None:
  "stepName \<notin> WorkflowStepBase.Name ` set subs \<Longrightarrow> subStepsAfter stepName subs = None"
  by (induction subs) auto

lemma subStepsAfter_found:
  "stepName \<notin> WorkflowStepBase.Name ` set before \<Longrightarrow> WorkflowStepBase.Name sub = stepName \<Longrightarrow>
   subStepsAfter stepName (before @ sub # after) = Some (map WorkflowStepBase.Name after)"
  by (induction before) auto

lemma stepsAfter_skip:
  "\<forall>p \<in> set before. \<not> namesStep stepName p \<Longrightarrow>
   stepsAfter stepName (before @ rest) = stepsAfter stepName rest"
  by (induction before) (auto simp: namesStep_def subStepsAfter_None)

text \<open>
  Claim C5. Without DAG mode \<^verbatim>\<open>getStepDependency\<close> needs no fuel. When the first step that
  carries \<open>stepName\<close> has that name itself, the result is the names of the steps
  declared after it; when it carries the name in a substep, the result is the names of
  the substeps declared after the first such substep in that step; when no step
  carries the name, the result is the empty list.
\<close>

theorem getStepDependency_step_by_step:
  "(steps = before @ step # after \<and> (\<forall>p \<in> set before. \<not> namesStep stepName p) \<and>
      WorkflowStepBase.Name step = stepName \<longrightarrow>
      getStepDependency fuel steps stepName False = Some (map WorkflowStepBase.Name after)) \<and>
   (steps = before @ step # after \<and> (\<forall>p \<in> set before. \<not> namesStep stepName p) \<and>
      WorkflowStepBase.Name step \<noteq> stepName \<and> SubSteps step = subsBefore @ sub # subsAfter \<and>
      stepName \<notin> WorkflowStepBase.Name ` set subsBefore \<and> WorkflowStepBase.Name sub = stepName \<longrightarrow>
      getStepDependency fuel steps stepName False = Some (map WorkflowStepBase.Name subsAfter)) \<and>
   ((\<forall>p \<in> set steps. \<not> namesStep stepName p) \<longrightarrow>
      getStepDependency fuel steps stepName False = Some [])"
proof (intro conjI impI)
  assume "steps = before @ step # after \<and> (\<forall>p \<in> set before. \<not> namesStep stepName p) \<and>
      WorkflowStepBase.Name step = stepName"
  then show "getStepDependency fuel steps stepName False = Some (map WorkflowStepBase.Name after)"
    by (simp add: getStepDependency_def stepsAfter_skip)
next
  assume "steps = before @ step # after \<and> (\<forall>p \<in> set before. \<not> namesStep stepName p) \<and>
      WorkflowStepBase.Name step \<noteq> stepName \<and> SubSteps step = subsBefore @ sub # subsAfter \<and>
      stepName \<notin> WorkflowStepBase.Name ` set subsBefore \<and> WorkflowStepBase.Name sub = stepName"
  then show "getStepDependency fuel steps stepName False = Some (map WorkflowStepBase.Name subsAfter)"
    by (simp add: getStepDependency_def stepsAfter_skip subStepsAfter_found)
next
  assume "\<forall>p \<in> set steps. \<not> namesStep stepName p"
  then have "stepsAfter stepName (steps @ []) = stepsAfter stepName []"
    by (rule stepsAfter_skip)
  then show "getStepDependency fuel steps stepName False = Some []"
    by (simp add: getStepDependency_def)
qed

theorem getStepDependency_step_by_step_witness:
  "getStepDependency 0 pipeline ''B'' False = Some [''G'', ''C''] \<and>
   getStepDependency 0 pipeline ''g1'' False = Some [''g2'', ''g3''] \<and>
   getStepDependency 0 pipeline ''nowhere'' False = Some []"
proof -
  have 1: "getStepDependency 0 pipeline ''B'' False = Some [''G'', ''C'']"
    using getStepDependency_step_by_step[where steps = pipeline and stepName = "''B''" and fuel = 0
        and before = "[pipeline ! 0]" and step = "pipeline ! 1" and after = "[pipeline ! 2, pipeline ! 3]",
        THEN conjunct1]
    by (simp add: pipeline_def namesStep_def mk_defs constant_defs)
  have 2: "getStepDependency 0 pipeline ''g1'' False = Some [''g2'', ''g3'']"
    using getStepDependency_step_by_step[where steps = pipeline and stepName = "''g1''" and fuel = 0
        and before = "[pipeline ! 0, pipeline ! 1]" and step = "pipeline ! 2" and after = "[pipeline ! 3]"
        and subsBefore = "[]" and sub = "SubSteps (pipeline ! 2) ! 0"
        and subsAfter = "[SubSteps (pipeline ! 2) ! 1, SubSteps (pipeline ! 2) ! 2]",
        THEN conjunct2, THEN conjunct1]
    by (simp add: pipeline_def namesStep_def mk_defs constant_defs)
  have 3: "getStepDependency 0 pipeline ''nowhere'' False = Some []"
    using getStepDependency_step_by_step[where steps = pipeline and stepName = "''nowhere''" and fuel = 0,
        THEN conjunct2, THEN conjunct2]
    by (simp add: pipeline_def namesStep_def mk_defs constant_defs)
  from 1 2 3 show ?thesis by simp
qed

subsection \<open>Step identifiers\<close>

lemma findStepID_find:
  "findStepID sts name = map_option ID (find (\<lambda>ss. StepStatus.Name ss = name) sts)"
  by (induction sts) auto

lemma findSubID_find:
  "findSubID subs name = map_option ID (find (\<lambda>ss. StepStatus.Name ss = name) subs)"
  by (induction subs) auto

lemma find_distinct_names:
  "distinct (map StepStatus.Name sts) \<Longrightarrow> ss \<in> set sts \<Longrightarrow>
   find (\<lambda>x. StepStatus.Name x = StepStatus.Name ss) sts = Some ss"
  by (induction sts) (auto simp: image_iff)

lemma find_no_name:
  "name \<notin> StepStatus.Name ` set sts \<Longrightarrow> find (\<lambda>x. StepStatus.Name x = name) sts = None"
  by (induction sts) auto

lemma findSubStepID_parent:
  "distinct (map StepStatus.Name sts) \<Longrightarrow> parent \<in> set sts \<Longrightarrow>
   findSubStepID sts name (StepStatus.Name parent) = findSubID (SubStepsStatus parent) name"
proof (induction sts)
  case Nil
  then show ?case by simp
next
  case (Cons a sts)
  have none: "findSubStepID sts name (StepStatus.Name a) = None" if "StepStatus.Name a \<notin> StepStatus.Name ` set sts"
    using that by (induction sts) auto
  show ?case
  proof (cases "parent = a")
    case True
    with Cons.prems none show ?thesis by (auto split: option.splits)
  next
    case False
    with Cons show ?thesis by (auto simp: image_iff)
  qed
qed

lemma findSubStepID_none:
  "\<forall>ss \<in> set sts. StepStatus.Name ss = parentStepName \<longrightarrow> name \<notin> StepStatus.Name ` set (SubStepsStatus ss) \<Longrightarrow>
   findSubStepID sts name parentStepName = None"
  by (induction sts) (auto simp: findSubID_find find_no_name)

lemma length_RandomString: "length (RandomString rnd n) = n"
  by (simp add: RandomString_def)

text \<open>
  Claim C7. \<^verbatim>\<open>generateStepID\<close> gives a step the identifier of the first status entry with
  its name, and \<^verbatim>\<open>generateSubStepID\<close> gives a substep the identifier recorded under its
  name in the substeps of the status entry of its parent; only when there is no such
  entry is the identifier \<^verbatim>\<open>RandomString(10)\<close>, which has ten characters. So, the names in
  the status being distinct, every identifier in the status comes out again for the
  name it is recorded under.
\<close>

theorem generateStepID_stable:
  "(find (\<lambda>x. StepStatus.Name x = name) (WorkflowRunStatus.Steps status) = Some ss \<longrightarrow>
      generateStepID rnd status name = ID ss) \<and>
   (name \<notin> StepStatus.Name ` set (WorkflowRunStatus.Steps status) \<longrightarrow>
      generateStepID rnd status name = RandomString rnd 10 \<and> length (generateStepID rnd status name) = 10) \<and>
   (distinct (map StepStatus.Name (WorkflowRunStatus.Steps status)) \<and> ss \<in> set (WorkflowRunStatus.Steps status) \<longrightarrow>
      generateStepID rnd status (StepStatus.Name ss) = ID ss) \<and>
   (distinct (map StepStatus.Name (WorkflowRunStatus.Steps status)) \<and> parent \<in> set (WorkflowRunStatus.Steps status) \<and>
    find (\<lambda>x. StepStatus.Name x = name) (SubStepsStatus parent) = Some sub \<longrightarrow>
      generateSubStepID rnd status name (StepStatus.Name parent) = ID sub) \<and>
   (distinct (map StepStatus.Name (WorkflowRunStatus.Steps status)) \<and> parent \<in> set (WorkflowRunStatus.Steps status) \<and>
    distinct (map StepStatus.Name (SubStepsStatus parent)) \<and> sub \<in> set (SubStepsStatus parent) \<longrightarrow>
      generateSubStepID rnd status (StepStatus.Name sub) (StepStatus.Name parent) = ID sub) \<and>
   ((\<forall>p \<in> set (WorkflowRunStatus.Steps status).
        StepStatus.Name p = parentStepName \<longrightarrow> name \<notin> StepStatus.Name ` set (SubStepsStatus p)) \<longrightarrow>
      generateSubStepID rnd status name parentStepName = RandomString rnd 10 \<and>
      length (generateSubStepID rnd status name parentStepName) = 10)"
  by (auto simp: generateStepID_def generateSubStepID_def findStepID_find findSubID_find
      find_distinct_names find_no_name findSubStepID_parent findSubStepID_none length_RandomString)

theorem generateStepID_stable_witness:
  "generateStepID sampleRandom recordedRun ''A'' = ''k3f9x2m1qa'' \<and>
   generateStepID sampleRandom recordedRun ''G'' = ''p0o9i8u7y6'' \<and>
   generateSubStepID sampleRandom recordedRun ''g2'' ''G'' = ''z1x2c3v4b5'' \<and>
   length (generateStepID sampleRandom recordedRun ''B'') = 10 \<and>
   length (generateSubStepID sampleRandom recordedRun ''g3'' ''G'') = 10"
proof -
  have 1: "generateStepID sampleRandom recordedRun ''A'' = ''k3f9x2m1qa''"
    using generateStepID_stable[where status = recordedRun and rnd = sampleRandom
        and ss = "WorkflowRunStatus.Steps recordedRun ! 0", THEN conjunct2, THEN conjunct2, THEN conjunct1]
    by (simp add: recordedRun_def mk_defs)
  have 2: "generateStepID sampleRandom recordedRun ''G'' = ''p0o9i8u7y6''"
    using generateStepID_stable[where status = recordedRun and rnd = sampleRandom and name = "''G''"
        and ss = "WorkflowRunStatus.Steps recordedRun ! 1", THEN conjunct1]
    by (simp add: recordedRun_def mk_defs)
  have 3: "generateSubStepID sampleRandom recordedRun ''g2'' ''G'' = ''z1x2c3v4b5''"
    using generateStepID_stable[where status = recordedRun and rnd = sampleRandom
        and parent = "WorkflowRunStatus.Steps recordedRun ! 1"
        and sub = "SubStepsStatus (WorkflowRunStatus.Steps recordedRun ! 1) ! 1",
        THEN conjunct2, THEN conjunct2, THEN conjunct2, THEN conjunct2, THEN conjunct1]
    by (simp add: recordedRun_def mk_defs)
  have 4: "length (generateStepID sampleRandom recordedRun ''B'') = 10"
    using generateStepID_stable[where status = recordedRun and rnd = sampleRandom and name = "''B''",
        THEN conjunct2, THEN conjunct1]
    by (simp add: recordedRun_def mk_defs length_RandomString)
  have 5: "length (generateSubStepID sampleRandom recordedRun ''g3'' ''G'') = 10"
    using generateStepID_stable[where status = recordedRun and rnd = sampleRandom and name = "''g3''"
        and parentStepName = "''G''",
        THEN conjunct2, THEN conjunct2, THEN conjunct2, THEN conjunct2, THEN conjunct2]
    by (simp add: recordedRun_def mk_defs length_RandomString)
  from 1 2 3 4 5 show ?thesis by simp
qed

subsection \<open>Restart of the whole run\<close>

text \<open>
  Claim C8. \<^verbatim>\<open>RestartWorkflow\<close> with the empty step name always returns. When the context
  object named by \<open>ContextBackend\<close> is found it is deleted, and when the deletion succeeds
  the status is replaced by the zero status and written; when the object is not found,
  or the run has no \<open>ContextBackend\<close>, the status is replaced and written all the same,
  and the error is that of the write alone. Whenever the result is no error, the
  status is the zero status and has been written.
\<close>

theorem RestartWorkflow_full_reset:
  "(ContextBackend (Status r) = Some backend \<and>
    getConfigMap c (WorkflowRun.Namespace r, ObjectReference.Name backend) = Inr cm \<and>
    send c (DeleteConfigMap cm) = None \<longrightarrow>
      RestartWorkflow fuel q c r [] =
        Some \<lparr>err = send c (StatusUpdate (r\<lparr>Status := zeroStatus\<rparr>)), run = r\<lparr>Status := zeroStatus\<rparr>,
              calls = [DeleteConfigMap cm, StatusUpdate (r\<lparr>Status := zeroStatus\<rparr>)]\<rparr>) \<and>
   (ContextBackend (Status r) = Some backend \<and>
    getConfigMap c (WorkflowRun.Namespace r, ObjectReference.Name backend) = Inl ErrNotFound \<longrightarrow>
      RestartWorkflow fuel q c r [] =
        Some \<lparr>err = send c (StatusUpdate (r\<lparr>Status := zeroStatus\<rparr>)), run = r\<lparr>Status := zeroStatus\<rparr>,
              calls = [StatusUpdate (r\<lparr>Status := zeroStatus\<rparr>)]\<rparr>) \<and>
   (ContextBackend (Status r) = None \<longrightarrow>
      RestartWorkflow fuel q c r [] =
        Some \<lparr>err = send c (StatusUpdate (r\<lparr>Status := zeroStatus\<rparr>)), run = r\<lparr>Status := zeroStatus\<rparr>,
              calls = [StatusUpdate (r\<lparr>Status := zeroStatus\<rparr>)]\<rparr>) \<and>
   (\<exists>res. RestartWorkflow fuel q c r [] = Some res \<and>
      (err res = None \<longrightarrow>
         Status (run res) = zeroStatus \<and> StatusUpdate (r\<lparr>Status := zeroStatus\<rparr>) \<in> set (calls res)))"
  by (auto simp: RestartWorkflow_def resetStatus_def Let_def IsNotFound_def
      split: option.splits sum.splits)

theorem RestartWorkflow_full_reset_witness:
  "RestartWorkflow 0 cueStub contextClient finishedRun [] =
     Some \<lparr>err = None, run = finishedRun\<lparr>Status := zeroStatus\<rparr>,
           calls = [DeleteConfigMap \<lparr>ConfigMap.Name = ''workflow-demo-context'',
                      ConfigMap.Namespace = ''default'', Data = Some [(''vars'', ''x: 1'')]\<rparr>,
                    StatusUpdate (finishedRun\<lparr>Status := zeroStatus\<rparr>)]\<rparr> \<and>
   RestartWorkflow 0 cueStub quietClient finishedRun [] =
     Some \<lparr>err = None, run = finishedRun\<lparr>Status := zeroStatus\<rparr>,
           calls = [StatusUpdate (finishedRun\<lparr>Status := zeroStatus\<rparr>)]\<rparr>"
proof -
  have b: "ContextBackend (Status finishedRun) = Some \<lparr>ObjectReference.Name = ''workflow-demo-context''\<rparr>"
    "WorkflowRun.Namespace finishedRun = ''default''"
    by (simp_all add: finishedRun_def mk_defs)
  have 1: "RestartWorkflow 0 cueStub contextClient finishedRun [] =
     Some \<lparr>err = None, run = finishedRun\<lparr>Status := zeroStatus\<rparr>,
           calls = [DeleteConfigMap \<lparr>ConfigMap.Name = ''workflow-demo-context'',
                      ConfigMap.Namespace = ''default'', Data = Some [(''vars'', ''x: 1'')]\<rparr>,
                    StatusUpdate (finishedRun\<lparr>Status := zeroStatus\<rparr>)]\<rparr>"
    using RestartWorkflow_full_reset[where r = finishedRun and c = contextClient and fuel = 0 and q = cueStub
        and backend = "\<lparr>ObjectReference.Name = ''workflow-demo-context''\<rparr>"
        and cm = "\<lparr>ConfigMap.Name = ''workflow-demo-context'',
                      ConfigMap.Namespace = ''default'', Data = Some [(''vars'', ''x: 1'')]\<rparr>",
        THEN conjunct1] b
    by (simp add: contextClient_def)
  have 2: "RestartWorkflow 0 cueStub quietClient finishedRun [] =
     Some \<lparr>err = None, run = finishedRun\<lparr>Status := zeroStatus\<rparr>,
           calls = [StatusUpdate (finishedRun\<lparr>Status := zeroStatus\<rparr>)]\<rparr>"
    using RestartWorkflow_full_reset[where r = finishedRun and c = quietClient and fuel = 0 and q = cueStub
        and backend = "\<lparr>ObjectReference.Name = ''workflow-demo-context''\<rparr>",
        THEN conjunct2, THEN conjunct1] b
    by (simp add: quietClient_def)
  from 1 2 show ?thesis by simp
qed

subsection \<open>Requests that are refused\<close>

lemma find_append_option:
  "find P (xs @ ys) = (case find P xs of None \<Rightarrow> find P ys | Some x \<Rightarrow> Some x)"
  by (induction xs) auto

lemma statusEntries_Cons:
  "statusEntries (x # xs) = StepStatus.truncate x # SubStepsStatus x @ statusEntries xs"
  by (simp add: statusEntries_def)

lemma truncate_fields:
  "StepStatus.Name (StepStatus.truncate x) = StepStatus.Name x"
  "Phase (StepStatus.truncate x) = Phase x"
  by (simp_all add: StepStatus.truncate_def)

lemma restartLoop_non_failed:
  "n = length (stepStatus st) - i \<Longrightarrow>
   find (\<lambda>e. StepStatus.Name e = stepName) (statusEntries (drop i (stepStatus st))) = Some e \<Longrightarrow>
   Phase e \<noteq> WorkflowStepPhaseFailed \<Longrightarrow>
   restartLoop fuel steps mode stepName n i st = Some (Some ErrNonFailedStep, st)"
proof (induction n arbitrary: i)
  case 0
  then show ?case by (simp add: statusEntries_def)
next
  case (Suc n)
  then have i: "i < length (stepStatus st)" by simp
  then have d: "drop i (stepStatus st) = (stepStatus st ! i) # drop (Suc i) (stepStatus st)"
    by (simp add: Cons_nth_drop_Suc)
  have n: "n = length (stepStatus st) - Suc i" using Suc.prems(1) by simp
  show ?case
  proof (cases "StepStatus.Name (stepStatus st ! i) = stepName")
    case True
    with Suc.prems(2) d have "e = StepStatus.truncate (stepStatus st ! i)"
      by (simp add: statusEntries_Cons truncate_fields)
    with Suc.prems(3) have "Phase (stepStatus st ! i) \<noteq> WorkflowStepPhaseFailed"
      by (simp add: truncate_fields)
    with True show ?thesis
      by (simp add: Let_def)
  next
    case False
    show ?thesis
    proof (cases "find (\<lambda>sub. StepStatus.Name sub = stepName) (SubStepsStatus (stepStatus st ! i))")
      case None
      with False Suc.prems(2) d
      have "find (\<lambda>e. StepStatus.Name e = stepName) (statusEntries (drop (Suc i) (stepStatus st))) = Some e"
        by (simp add: statusEntries_Cons truncate_fields find_append_option)
      from Suc.IH[OF n this Suc.prems(3)] False None show ?thesis
        by (simp add: Let_def)
    next
      case (Some sub)
      with False Suc.prems(2) d have "sub = e"
        by (simp add: statusEntries_Cons truncate_fields find_append_option)
      with False Some Suc.prems(3) show ?thesis
        by (simp add: Let_def)
    qed
  qed
qed

lemma restartLoop_no_match:
  "n = length (stepStatus st) - i \<Longrightarrow>
   find (\<lambda>e. StepStatus.Name e = stepName) (statusEntries (drop i (stepStatus st))) = None \<Longrightarrow>
   restartLoop fuel steps mode stepName n i st = Some (None, st)"
proof (induction n arbitrary: i)
  case 0
  then show ?case by simp
next
  case (Suc n)
  then have i: "i < length (stepStatus st)" by simp
  then have d: "drop i (stepStatus st) = (stepStatus st ! i) # drop (Suc i) (stepStatus st)"
    by (simp add: Cons_nth_drop_Suc)
  have n: "n = length (stepStatus st) - Suc i" using Suc.prems(1) by simp
  from Suc.prems(2) d
  have a: "StepStatus.Name (stepStatus st ! i) \<noteq> stepName"
    and b: "find (\<lambda>sub. StepStatus.Name sub = stepName) (SubStepsStatus (stepStatus st ! i)) = None"
    and c: "find (\<lambda>e. StepStatus.Name e = stepName) (statusEntries (drop (Suc i) (stepStatus st))) = None"
    by (auto simp: statusEntries_Cons truncate_fields find_append_option split: if_splits option.splits)
  from Suc.IH[OF n c] a b show ?case by (simp add: Let_def)
qed

lemma specSteps_Status: "specSteps c (r\<lparr>Status := s\<rparr>) = specSteps c r"
  by (simp add: specSteps_def split: option.splits)

text \<open>
  Claim C9. \<^verbatim>\<open>Rollback\<close> returns an error and touches nothing. \<^verbatim>\<open>RestartFromStep\<close> with a
  step name whose first status entry (step or substep) is not in the phase Failed
  returns an error, and so it does when no step or substep of the status has the name;
  in both cases it makes no call, so the status is not written back. The error is the
  one of the check, unless reading the steps of the workflow failed first.
\<close>

theorem invalid_requests_rejected:
  "err (Rollback wo) = Some ErrRollback \<and> run (Rollback wo) = operatorRun wo \<and> calls (Rollback wo) = [] \<and>
   (stepName \<noteq> [] \<and>
    find (\<lambda>e. StepStatus.Name e = stepName) (statusEntries (WorkflowRunStatus.Steps (Status r))) = Some e \<and>
    Phase e \<noteq> WorkflowStepPhaseFailed \<longrightarrow>
      (\<exists>res. RestartFromStep fuel q c r stepName = Some res \<and> calls res = [] \<and>
         err res = Some (case specSteps c r of Inl e' \<Rightarrow> e' | Inr steps \<Rightarrow> ErrNonFailedStep))) \<and>
   (stepName \<noteq> [] \<and>
    stepName \<notin> StepStatus.Name ` set (statusEntries (WorkflowRunStatus.Steps (Status r))) \<longrightarrow>
      (\<exists>res. RestartFromStep fuel q c r stepName = Some res \<and> calls res = [] \<and>
         err res = Some (case specSteps c r of Inl e' \<Rightarrow> e' | Inr steps \<Rightarrow> ErrStepNotFound stepName)))"
proof (intro conjI impI)
  show "err (Rollback wo) = Some ErrRollback" "run (Rollback wo) = operatorRun wo" "calls (Rollback wo) = []"
    by (simp_all add: Rollback_def)
next
  assume a: "stepName \<noteq> [] \<and>
    find (\<lambda>e. StepStatus.Name e = stepName) (statusEntries (WorkflowRunStatus.Steps (Status r))) = Some e \<and>
    Phase e \<noteq> WorkflowStepPhaseFailed"
  show "\<exists>res. RestartFromStep fuel q c r stepName = Some res \<and> calls res = [] \<and>
         err res = Some (case specSteps c r of Inl e' \<Rightarrow> e' | Inr steps \<Rightarrow> ErrNonFailedStep)"
  proof (cases "specSteps c r")
    case (Inl e')
    with a show ?thesis by (simp add: RestartFromStep_def Let_def specSteps_Status)
  next
    case (Inr steps)
    with a show ?thesis
      by (simp add: RestartFromStep_def Let_def specSteps_Status restartLoop_non_failed)
  qed
next
  assume a: "stepName \<noteq> [] \<and>
    stepName \<notin> StepStatus.Name ` set (statusEntries (WorkflowRunStatus.Steps (Status r)))"
  then have f: "find (\<lambda>e. StepStatus.Name e = stepName) (statusEntries (WorkflowRunStatus.Steps (Status r))) = None"
    by (auto simp: find_None_iff)
  show "\<exists>res. RestartFromStep fuel q c r stepName = Some res \<and> calls res = [] \<and>
         err res = Some (case specSteps c r of Inl e' \<Rightarrow> e' | Inr steps \<Rightarrow> ErrStepNotFound stepName)"
  proof (cases "specSteps c r")
    case (Inl e')
    with a show ?thesis by (simp add: RestartFromStep_def Let_def specSteps_Status)
  next
    case (Inr steps)
    with a f show ?thesis
      by (simp add: RestartFromStep_def Let_def specSteps_Status restartLoop_no_match)
  qed
qed

theorem invalid_requests_rejected_witness:
  "err (Rollback (mkOperator pendingRun)) = Some ErrRollback \<and>
   calls (Rollback (mkOperator pendingRun)) = [] \<and>
   (\<exists>res. RestartFromStep 0 cueStub quietClient pendingRun ''g2'' = Some res \<and> calls res = [] \<and>
      err res = Some ErrNonFailedStep) \<and>
   (\<exists>res. RestartFromStep 0 cueStub quietClient pendingRun ''B'' = Some res \<and> calls res = [] \<and>
      err res = Some ErrNonFailedStep) \<and>
   (\<exists>res. RestartFromStep 0 cueStub quietClient pendingRun ''Z'' = Some res \<and> calls res = [] \<and>
      err res = Some (ErrStepNotFound ''Z''))"
proof -
  have s: "specSteps quietClient pendingRun = Inr pipeline"
    by (simp add: specSteps_def pendingRun_def mk_defs)
  have 0: "err (Rollback (mkOperator pendingRun)) = Some ErrRollback \<and>
      calls (Rollback (mkOperator pendingRun)) = []"
    using invalid_requests_rejected[where wo = "mkOperator pendingRun"] by simp
  have 1: "\<exists>res. RestartFromStep 0 cueStub quietClient pendingRun ''g2'' = Some res \<and> calls res = [] \<and>
      err res = Some ErrNonFailedStep"
    using invalid_requests_rejected[where r = pendingRun and stepName = "''g2''" and fuel = 0
        and q = cueStub and c = quietClient
        and e = "mkStatus ''id5'' ''g2'' ''apply-object'' WorkflowStepPhaseRunning []",
        THEN conjunct2, THEN conjunct2, THEN conjunct2, THEN conjunct1] s
    by (simp add: pendingRun_def mk_defs statusEntries_def StepStatus.truncate_def constant_defs)
  have 2: "\<exists>res. RestartFromStep 0 cueStub quietClient pendingRun ''B'' = Some res \<and> calls res = [] \<and>
      err res = Some ErrNonFailedStep"
    using invalid_requests_rejected[where r = pendingRun and stepName = "''B''" and fuel = 0
        and q = cueStub and c = quietClient
        and e = "mkStatus ''id2'' ''B'' ''apply-object'' WorkflowStepPhaseSucceeded []",
        THEN conjunct2, THEN conjunct2, THEN conjunct2, THEN conjunct1] s
    by (simp add: pendingRun_def mk_defs statusEntries_def StepStatus.truncate_def constant_defs)
  have 3: "\<exists>res. RestartFromStep 0 cueStub quietClient pendingRun ''Z'' = Some res \<and> calls res = [] \<and>
      err res = Some (ErrStepNotFound ''Z'')"
    using invalid_requests_rejected[where r = pendingRun and stepName = "''Z''" and fuel = 0
        and q = cueStub and c = quietClient,
        THEN conjunct2, THEN conjunct2, THEN conjunct2, THEN conjunct2] s
    by (simp add: pendingRun_def mk_defs statusEntries_def StepStatus.truncate_def constant_defs)
  from 0 1 2 3 show ?thesis by simp
qed

subsection \<open>Clearing the context variables\<close>

lemma stringsContain_set: "stringsContain items source \<longleftrightarrow> source \<in> set items"
  by (induction items) auto

lemma set_outputsOfStep:
  "set (outputsOfStep stepName deps b) =
     (if WorkflowStepBase.Name b = stepName \<or> WorkflowStepBase.Name b \<in> set deps
      then outputItem.Name ` set (Outputs b) else {})"
  by (simp add: outputsOfStep_def stringsContain_set)

lemma truncate_step_fields:
  "WorkflowStepBase.Name (WorkflowStepBase.truncate step) = WorkflowStepBase.Name step"
  "Outputs (WorkflowStepBase.truncate step) = Outputs step"
  "Inputs (WorkflowStepBase.truncate step) = Inputs step"
  "DependsOn (WorkflowStepBase.truncate step) = DependsOn step"
  by (simp_all add: WorkflowStepBase.truncate_def)

lemma outputsOfStep_truncate:
  "outputsOfStep stepName deps (WorkflowStepBase.truncate step) = outputsOfStep stepName deps step"
  by (simp add: outputsOfStep_def truncate_step_fields)

lemma clearedOutputs_Union:
  "clearedOutputs steps stepName deps =
     (\<Union>b \<in> set (declaredSteps steps). set (outputsOfStep stepName deps b))"
  by (auto simp: clearedOutputs_def set_outputsOfStep split: if_splits)

lemma declaredSteps_Cons:
  "declaredSteps (step # steps) = WorkflowStepBase.truncate step # SubSteps step @ declaredSteps steps"
  by (simp add: declaredSteps_def)

lemma set_collectOutputs:
  "set (collectOutputs steps stepName deps) = clearedOutputs steps stepName deps"
proof (induction steps)
  case Nil
  then show ?case by (simp add: clearedOutputs_Union declaredSteps_def)
next
  case (Cons step steps)
  then show ?case
    by (simp add: clearedOutputs_Union declaredSteps_Cons outputsOfStep_truncate Un_assoc)
qed

lemma keepElts_filter:
  "keepElts q outputs elts = filter (keptField q (set outputs)) elts"
  by (induction q outputs elts rule: keepElts.induct) (simp_all add: keptField_def stringsContain_set)

lemma dropWhile_eq_replicate_append:
  "dropWhile (\<lambda>c. c = x) (replicate i x @ xs) = dropWhile (\<lambda>c. c = x) xs"
  by (induction i) simp_all

lemma dropWhile_eq_replicate: "dropWhile (\<lambda>c. c = x) (replicate i x) = []"
  by (induction i) simp_all

lemma dropWhile_eq_hd: "n \<noteq> [] \<Longrightarrow> hd n \<noteq> x \<Longrightarrow> dropWhile (\<lambda>c. c = x) n = n"
  by (cases n) simp_all

lemma trim_right:
  assumes "n \<noteq> []" and "last n \<noteq> x"
  shows "rev (dropWhile (\<lambda>c. c = x) (rev (n @ replicate j x))) = n"
proof -
  have "rev (n @ replicate j x) = replicate j x @ rev n" by simp
  moreover have "dropWhile (\<lambda>c. c = x) (rev n) = rev n"
    using assms by (intro dropWhile_eq_hd) (simp_all add: hd_rev)
  ultimately have "dropWhile (\<lambda>c. c = x) (rev (n @ replicate j x)) = rev n"
    by (simp only: dropWhile_eq_replicate_append)
  then show ?thesis by (simp only: rev_rev_ident)
qed

lemma trimQuotes_strip:
  assumes "n = [] \<or> hd n \<noteq> CHR 0x22 \<and> last n \<noteq> CHR 0x22"
  shows "trimQuotes (replicate i (CHR 0x22) @ n @ replicate j (CHR 0x22)) = n"
proof (cases "n = []")
  case True
  have "dropWhile (\<lambda>c. c = CHR 0x22) (replicate i (CHR 0x22) @ replicate j (CHR 0x22)) = []"
    by (simp only: dropWhile_eq_replicate_append dropWhile_eq_replicate)
  then have "trimQuotes (replicate i (CHR 0x22) @ [] @ replicate j (CHR 0x22)) = []"
    by (simp only: trimQuotes_def append_Nil rev.simps dropWhile.simps)
  with True show ?thesis by (simp only:)
next
  case False
  with assms have h: "hd n \<noteq> CHR 0x22" and l: "last n \<noteq> CHR 0x22" by blast+
  have "dropWhile (\<lambda>c. c = CHR 0x22) (replicate i (CHR 0x22) @ n @ replicate j (CHR 0x22))
      = dropWhile (\<lambda>c. c = CHR 0x22) (n @ replicate j (CHR 0x22))"
    by (rule dropWhile_eq_replicate_append)
  also have "\<dots> = n @ replicate j (CHR 0x22)"
    using False h by (intro dropWhile_eq_hd) simp_all
  finally have "trimQuotes (replicate i (CHR 0x22) @ n @ replicate j (CHR 0x22))
      = rev (dropWhile (\<lambda>c. c = CHR 0x22) (rev (n @ replicate j (CHR 0x22))))"
    by (simp only: trimQuotes_def)
  also have "\<dots> = n" using False l by (rule trim_right)
  finally show ?thesis .
qed

text \<open>
  Claim C6. On a document that is no struct literal \<^verbatim>\<open>clearContextVars\<close> returns the error.
  On a struct literal it formats the struct literal that holds, in their order, the
  declarations of the document that it keeps. It keeps no declaration that is not a
  field. For a field, let the text that \<^verbatim>\<open>sets.LabelStr\<close> gives for its label be a name \<open>n\<close>
  with any number of double quotes before and after it (\<open>n\<close> itself neither beginning
  nor ending with one): the field is kept when \<open>n\<close> is not an output name of the step
  \<open>stepName\<close> or of a step or substep in \<open>deps\<close>, and it is deleted when \<open>n\<close> is such an
  output name.
\<close>

theorem clearContextVars_fields:
  "clearContextVars q steps (OtherNode other) stepName deps = Inl ErrNotStructLit \<and>
   (\<exists>kept. clearContextVars q steps (StructLit elts) stepName deps = formatNode q (StructLit kept) \<and>
      kept = filter (\<lambda>d. d \<in> set kept) elts \<and>
      (\<forall>d. OtherDecl d \<notin> set kept) \<and>
      (\<forall>l v n i j.
          LabelStr q l = replicate i (CHR 0x22) @ n @ replicate j (CHR 0x22) \<and>
          (n = [] \<or> hd n \<noteq> CHR 0x22 \<and> last n \<noteq> CHR 0x22) \<longrightarrow>
          (Field l v \<in> set kept \<longleftrightarrow>
             Field l v \<in> set elts \<and> n \<notin> clearedOutputs steps stepName deps)))"
proof (intro conjI)
  show "clearContextVars q steps (OtherNode other) stepName deps = Inl ErrNotStructLit"
    by (simp add: clearContextVars_def)
next
  let ?kept = "filter (keptField q (clearedOutputs steps stepName deps)) elts"
  have 1: "clearContextVars q steps (StructLit elts) stepName deps = formatNode q (StructLit ?kept)"
    by (simp add: clearContextVars_def Let_def keepElts_filter set_collectOutputs)
  have 2: "?kept = filter (\<lambda>d. d \<in> set ?kept) elts"
    by (rule filter_cong) simp_all
  have 3: "\<forall>d. OtherDecl d \<notin> set ?kept"
    by (simp add: keptField_def)
  have 4: "\<forall>l v n i j.
          LabelStr q l = replicate i (CHR 0x22) @ n @ replicate j (CHR 0x22) \<and>
          (n = [] \<or> hd n \<noteq> CHR 0x22 \<and> last n \<noteq> CHR 0x22) \<longrightarrow>
          (Field l v \<in> set ?kept \<longleftrightarrow>
             Field l v \<in> set elts \<and> n \<notin> clearedOutputs steps stepName deps)"
  proof (intro allI impI)
    fix l v n i j
    assume "LabelStr q l = replicate i (CHR 0x22) @ n @ replicate j (CHR 0x22) \<and>
          (n = [] \<or> hd n \<noteq> CHR 0x22 \<and> last n \<noteq> CHR 0x22)"
    then have "fieldLabel q l = n"
      by (simp add: fieldLabel_def trimQuotes_strip)
    then show "Field l v \<in> set ?kept \<longleftrightarrow>
             Field l v \<in> set elts \<and> n \<notin> clearedOutputs steps stepName deps"
      by (simp add: keptField_def)
  qed
  from 1 2 3 4
  show "\<exists>kept. clearContextVars q steps (StructLit elts) stepName deps = formatNode q (StructLit kept) \<and>
      kept = filter (\<lambda>d. d \<in> set kept) elts \<and>
      (\<forall>d. OtherDecl d \<notin> set kept) \<and>
      (\<forall>l v n i j.
          LabelStr q l = replicate i (CHR 0x22) @ n @ replicate j (CHR 0x22) \<and>
          (n = [] \<or> hd n \<noteq> CHR 0x22 \<and> last n \<noteq> CHR 0x22) \<longrightarrow>
          (Field l v \<in> set kept \<longleftrightarrow>
             Field l v \<in> set elts \<and> n \<notin> clearedOutputs steps stepName deps))"
    by blast
qed

theorem clearContextVars_fields_witness:
  "clearContextVars cuePrinter pipeline (OtherNode ''[1, 2]'') ''A'' [''g1''] = Inl ErrNotStructLit \<and>
   clearContextVars cuePrinter pipeline (StructLit varsDocument) ''A'' [''g1''] = Inr ''keep: 3; z: 4; ''"
proof -
  have c: "clearedOutputs pipeline ''A'' [''g1''] = {''x'', ''y''}"
    by (auto simp: clearedOutputs_def declaredSteps_def pipeline_def mk_defs
        WorkflowStepBase.truncate_def)
  from clearContextVars_fields[where q = cuePrinter and steps = pipeline and stepName = "''A''"
      and deps = "[''g1'']" and elts = varsDocument and other = "''[1, 2]''"]
  obtain kept where
    o: "clearContextVars cuePrinter pipeline (OtherNode ''[1, 2]'') ''A'' [''g1''] = Inl ErrNotStructLit"
    and k: "clearContextVars cuePrinter pipeline (StructLit varsDocument) ''A'' [''g1'']
          = formatNode cuePrinter (StructLit kept)"
    and f: "kept = filter (\<lambda>d. d \<in> set kept) varsDocument"
    and d: "\<forall>d. OtherDecl d \<notin> set kept"
    and m: "\<And>l v n i j.
          LabelStr cuePrinter l = replicate i (CHR 0x22) @ n @ replicate j (CHR 0x22) \<Longrightarrow>
          (n = [] \<or> hd n \<noteq> CHR 0x22 \<and> last n \<noteq> CHR 0x22) \<Longrightarrow>
          (Field l v \<in> set kept \<longleftrightarrow>
             Field l v \<in> set varsDocument \<and> n \<notin> clearedOutputs pipeline ''A'' [''g1''])"
    by blast
  have x: "Field (Ident ''x'') ''1'' \<notin> set kept"
    using m[of "Ident ''x''" 0 "''x''" 0 "''1''"] by (simp add: cuePrinter_def c)
  have y: "Field (BasicLit (CHR 0x22 # ''y'' @ [CHR 0x22])) ''2'' \<notin> set kept"
    using m[of "BasicLit (CHR 0x22 # ''y'' @ [CHR 0x22])" 1 "''y''" 1 "''2''"]
    by (simp add: cuePrinter_def c)
  have kp: "Field (Ident ''keep'') ''3'' \<in> set kept"
    using m[of "Ident ''keep''" 0 "''keep''" 0 "''3''"] by (simp add: cuePrinter_def c varsDocument_def)
  have z: "Field (Ident ''z'') ''4'' \<in> set kept"
    using m[of "Ident ''z''" 0 "''z''" 0 "''4''"] by (simp add: cuePrinter_def c varsDocument_def)
  have "filter (\<lambda>d. d \<in> set kept) varsDocument = [Field (Ident ''keep'') ''3'', Field (Ident ''z'') ''4'']"
    using x y kp z d by (simp add: varsDocument_def)
  with f have "kept = [Field (Ident ''keep'') ''3'', Field (Ident ''z'') ''4'']" by simp
  with k have "clearContextVars cuePrinter pipeline (StructLit varsDocument) ''A'' [''g1''] = Inr ''keep: 3; z: 4; ''"
    by (simp add: cuePrinter_def)
  with o show ?thesis by simp
qed

subsection \<open>The recursion of \<^verbatim>\<open>findDependency\<close>\<close>

lemma depsLoop_absent:
  "stepName \<notin> set deps \<Longrightarrow> depsLoop recur stepName step deps acc = Some acc"
  by (induction deps arbitrary: acc) auto

lemma depsLoop_None:
  "stepName \<in> set deps \<Longrightarrow> recur step = None \<Longrightarrow> depsLoop recur stepName step deps acc = None"
  by (induction deps arbitrary: acc) auto

lemma depsLoop_Some:
  "recur step = Some below \<Longrightarrow>
   \<exists>d. depsLoop recur stepName step deps acc = Some d \<and>
       set d = set acc \<union> (if stepName \<in> set deps then insert step (set below) else {})"
proof (induction deps arbitrary: acc)
  case Nil
  then show ?case by simp
next
  case (Cons dep deps)
  show ?case
  proof (cases "dep = stepName")
    case True
    from Cons.IH[OF Cons.prems, of "(acc @ [step]) @ below"] True Cons.prems
    show ?thesis by auto
  next
    case False
    from Cons.IH[OF Cons.prems, of acc] False show ?thesis by auto
  qed
qed

lemma entriesLoop_None:
  "(step, deps) \<in> set entries \<Longrightarrow> stepName \<in> set deps \<Longrightarrow> recur step = None \<Longrightarrow>
   entriesLoop recur stepName entries acc = None"
proof (induction entries arbitrary: acc)
  case Nil
  then show ?case by simp
next
  case (Cons entry entries)
  obtain st ds where e: "entry = (st, ds)" by (cases entry)
  show ?case
  proof (cases "(step, deps) = entry")
    case True
    with e Cons.prems show ?thesis by (simp add: depsLoop_None)
  next
    case False
    with Cons e show ?thesis by (auto split: option.splits)
  qed
qed

lemma entriesLoop_Some:
  "\<forall>(step, deps) \<in> set entries. stepName \<in> set deps \<longrightarrow> recur step \<noteq> None \<Longrightarrow>
   \<exists>d. entriesLoop recur stepName entries acc = Some d \<and>
       set d = set acc \<union> (\<Union>(step, deps) \<in> set entries.
                 if stepName \<in> set deps then insert step (set (the (recur step))) else {})"
proof (induction entries arbitrary: acc)
  case Nil
  then show ?case by simp
next
  case (Cons entry entries)
  obtain st ds where e: "entry = (st, ds)" by (cases entry)
  show ?case
  proof (cases "stepName \<in> set ds")
    case True
    with Cons.prems e obtain below where b: "recur st = Some below" by auto
    from depsLoop_Some[where recur = recur and step = st, OF b, of stepName ds acc] True
    obtain d where d: "depsLoop recur stepName st ds acc = Some d" "set d = set acc \<union> insert st (set below)"
      by auto
    from Cons.IH[of d] Cons.prems
    obtain d' where "entriesLoop recur stepName entries d = Some d'"
      "set d' = set d \<union> (\<Union>(step, deps) \<in> set entries.
                 if stepName \<in> set deps then insert step (set (the (recur step))) else {})"
      by auto
    with d e True b show ?thesis by auto
  next
    case False
    from Cons.IH[of acc] Cons.prems
    obtain d' where "entriesLoop recur stepName entries acc = Some d'"
      "set d' = set acc \<union> (\<Union>(step, deps) \<in> set entries.
                 if stepName \<in> set deps then insert step (set (the (recur step))) else {})"
      by auto
    with e False show ?thesis by (auto simp: depsLoop_absent)
  qed
qed

lemma entriesLoop_Some_D:
  assumes "entriesLoop recur stepName entries acc = Some d"
    and "(step, deps) \<in> set entries" and "stepName \<in> set deps"
  shows "recur step \<noteq> None"
  using assms entriesLoop_None[of step deps entries stepName recur acc] by auto

lemma dependsRel_iff:
  "(t, s) \<in> dependsRel m \<longleftrightarrow> (\<exists>deps. (t, deps) \<in> set m \<and> s \<in> set deps)"
  by (simp add: dependsRel_def)

lemma trancl_last_step:
  "(t, s) \<in> r\<^sup>+ \<longleftrightarrow> (t, s) \<in> r \<or> (\<exists>u. (t, u) \<in> r\<^sup>+ \<and> (u, s) \<in> r)"
  by (meson trancl.cases trancl.intros)

lemma findDependency_set:
  "findDependency fuel stepName m = Some names \<Longrightarrow> set names = {t. (t, stepName) \<in> (dependsRel m)\<^sup>+}"
proof (induction fuel arbitrary: stepName names)
  case 0
  then show ?case by simp
next
  case (Suc fuel)
  let ?recur = "\<lambda>step. findDependency fuel step m"
  from Suc.prems have e: "entriesLoop ?recur stepName m [] = Some names" by simp
  have ok: "\<forall>(step, deps) \<in> set m. stepName \<in> set deps \<longrightarrow> ?recur step \<noteq> None"
    using entriesLoop_Some_D[OF e] by auto
  from entriesLoop_Some[OF ok, of "[]"] e
  have s: "set names = (\<Union>(step, deps) \<in> set m.
                 if stepName \<in> set deps then insert step (set (the (?recur step))) else {})"
    by auto
  have below: "set (the (?recur step)) = {t. (t, step) \<in> (dependsRel m)\<^sup>+}"
    if "(step, deps) \<in> set m" "stepName \<in> set deps" for step deps
  proof -
    from ok that obtain l where "?recur step = Some l" by auto
    with Suc.IH[of step l] show ?thesis by simp
  qed
  show ?case
  proof (intro set_eqI iffI)
    fix t assume "t \<in> set names"
    with s obtain step deps where sd: "(step, deps) \<in> set m" "stepName \<in> set deps"
      "t = step \<or> t \<in> set (the (?recur step))"
      by (auto split: if_splits)
    from sd(1,2) have r: "(step, stepName) \<in> dependsRel m" by (auto simp: dependsRel_iff)
    from sd below[OF sd(1,2)] have "t = step \<or> (t, step) \<in> (dependsRel m)\<^sup>+" by auto
    with r show "t \<in> {t. (t, stepName) \<in> (dependsRel m)\<^sup>+}"
      by (auto intro: trancl_into_trancl)
  next
    fix t assume "t \<in> {t. (t, stepName) \<in> (dependsRel m)\<^sup>+}"
    then have "(t, stepName) \<in> dependsRel m \<or> (\<exists>u. (t, u) \<in> (dependsRel m)\<^sup>+ \<and> (u, stepName) \<in> dependsRel m)"
      using trancl_last_step[of t stepName "dependsRel m"] by simp
    then obtain u where u: "(u, stepName) \<in> dependsRel m" "t = u \<or> (t, u) \<in> (dependsRel m)\<^sup>+"
      by auto
    from u(1) obtain deps where d: "(u, deps) \<in> set m" "stepName \<in> set deps"
      by (auto simp: dependsRel_iff)
    from u(2) below[OF d] have "t \<in> insert u (set (the (?recur u)))" by auto
    with d s show "t \<in> set names" by force
  qed
qed

lemma depsLoop_mono:
  "depsLoop recur stepName step deps acc = Some d \<Longrightarrow>
   (\<And>below. recur step = Some below \<Longrightarrow> recur' step = Some below) \<Longrightarrow>
   depsLoop recur' stepName step deps acc = Some d"
  by (induction deps arbitrary: acc) (auto split: if_splits option.splits)

lemma entriesLoop_mono:
  "entriesLoop recur stepName entries acc = Some d \<Longrightarrow>
   (\<And>step below. recur step = Some below \<Longrightarrow> recur' step = Some below) \<Longrightarrow>
   entriesLoop recur' stepName entries acc = Some d"
proof (induction entries arbitrary: acc)
  case Nil
  then show ?case by simp
next
  case (Cons entry entries)
  obtain st ds where e: "entry = (st, ds)" by (cases entry)
  from Cons.prems(1) e obtain d1 where d1: "depsLoop recur stepName st ds acc = Some d1"
    "entriesLoop recur stepName entries d1 = Some d"
    by (auto split: option.splits)
  from depsLoop_mono[OF d1(1), of recur'] Cons.prems(2)
  have "depsLoop recur' stepName st ds acc = Some d1" by blast
  moreover from Cons.IH[OF d1(2)] Cons.prems(2)
  have "entriesLoop recur' stepName entries d1 = Some d" by blast
  ultimately show ?case using e by simp
qed

lemma findDependency_Suc:
  "findDependency fuel stepName m = Some names \<Longrightarrow> findDependency (Suc fuel) stepName m = Some names"
proof (induction fuel arbitrary: stepName names)
  case 0
  then show ?case by simp
next
  case (Suc fuel)
  from Suc.prems have "entriesLoop (\<lambda>step. findDependency fuel step m) stepName m [] = Some names"
    by simp
  then have "entriesLoop (\<lambda>step. findDependency (Suc fuel) step m) stepName m [] = Some names"
    by (rule entriesLoop_mono) (rule Suc.IH)
  then show ?case by simp
qed

lemma findDependency_more_fuel:
  assumes "findDependency fuel stepName m = Some names" and "fuel \<le> k"
  shows "findDependency k stepName m = Some names"
  using assms(2,1)
proof (induction rule: dec_induct)
  case base
  then show ?case by simp
next
  case (step n)
  from step.IH[OF step.prems] show ?case by (rule findDependency_Suc)
qed

lemma finite_dependsRel: "finite (dependsRel m)"
proof -
  have "dependsRel m \<subseteq> fst ` set m \<times> (\<Union>(deps) \<in> snd ` set m. set deps)"
    by (force simp: dependsRel_def)
  then show ?thesis by (rule finite_subset) auto
qed

lemma fuel_for_all:
  "\<forall>x \<in> set xs. \<exists>n::nat. P n x \<Longrightarrow> (\<And>n k x. P n x \<Longrightarrow> n \<le> k \<Longrightarrow> P k x) \<Longrightarrow>
   \<exists>n. \<forall>x \<in> set xs. P n x"
proof (induction xs)
  case Nil
  then show ?case by simp
next
  case (Cons a xs)
  then obtain n1 where n1: "\<forall>x \<in> set xs. P n1 x" by auto
  from Cons.prems(1) obtain n2 where n2: "P n2 a" by auto
  have "P (max n1 n2) a"
    using n2 by (rule Cons.prems(2)) simp
  moreover have "P (max n1 n2) x" if "x \<in> set xs" for x
    using n1 that Cons.prems(2)[of n1 x "max n1 n2"] by simp
  ultimately have "\<forall>x \<in> set (a # xs). P (max n1 n2) x" by simp
  then show ?case ..
qed

lemma findDependency_terminates:
  assumes "acyclic (dependsRel m)"
  shows "\<exists>fuel names. findDependency fuel stepName m = Some names"
proof -
  have "wf (dependsRel m)"
    using finite_dependsRel assms by (rule finite_acyclic_wf)
  then show ?thesis
  proof (induction stepName rule: wf_induct_rule)
    case (less s)
    let ?P = "\<lambda>n (entry :: string \<times> string list). s \<in> set (snd entry) \<longrightarrow> findDependency n (fst entry) m \<noteq> None"
    have "\<forall>entry \<in> set m. \<exists>n. ?P n entry"
    proof
      fix entry assume en: "entry \<in> set m"
      show "\<exists>n. ?P n entry"
      proof (cases "s \<in> set (snd entry)")
        case True
        obtain a b where ab: "entry = (a, b)" by (cases entry)
        with en True have "(a, b) \<in> set m" "s \<in> set b" by simp_all
        then have "(a, s) \<in> dependsRel m" unfolding dependsRel_iff by blast
        with ab have "(fst entry, s) \<in> dependsRel m" by simp
        from less[OF this] show ?thesis by auto
      next
        case False
        then show ?thesis by simp
      qed
    qed
    moreover have "?P k entry" if p: "?P n entry" and le: "n \<le> k" for n k entry
    proof
      assume "s \<in> set (snd entry)"
      with p obtain l where "findDependency n (fst entry) m = Some l" by auto
      from findDependency_more_fuel[OF this le] show "findDependency k (fst entry) m \<noteq> None"
        by simp
    qed
    ultimately have "\<exists>n. \<forall>entry \<in> set m. ?P n entry"
      by (rule fuel_for_all)
    then obtain n where n: "\<forall>entry \<in> set m. ?P n entry" ..
    then have "\<forall>(step, deps) \<in> set m. s \<in> set deps \<longrightarrow> findDependency n step m \<noteq> None"
      by auto
    from entriesLoop_Some[OF this, of "[]"]
    obtain d where "entriesLoop (\<lambda>step. findDependency n step m) s m [] = Some d" by auto
    then have "findDependency (Suc n) s m = Some d" by simp
    then show ?case by blast
  qed
qed

lemma findDependency_cycle:
  "(stepName, stepName) \<in> (dependsRel m)\<^sup>+ \<Longrightarrow> findDependency fuel stepName m = None"
proof (induction fuel arbitrary: stepName)
  case 0
  then show ?case by simp
next
  case (Suc fuel)
  from Suc.prems obtain u where u: "(u, stepName) \<in> dependsRel m" "u = stepName \<or> (stepName, u) \<in> (dependsRel m)\<^sup>+"
    using trancl_last_step[of stepName stepName "dependsRel m"] by auto
  then have "(u, u) \<in> (dependsRel m)\<^sup>+"
    by (auto intro: trancl_into_trancl2 dest: r_into_trancl)
  then have none: "findDependency fuel u m = None" by (rule Suc.IH)
  from u(1) obtain deps where "(u, deps) \<in> set m" "stepName \<in> set deps"
    by (auto simp: dependsRel_iff)
  then have "entriesLoop (\<lambda>step. findDependency fuel step m) stepName m [] = None"
    using none by (rule entriesLoop_None)
  then show ?case by simp
qed

text \<open>
  Claim C10. When the relation of the map \<open>dependsOn\<close> has no cycle, \<^verbatim>\<open>findDependency\<close>
  returns: some depth of recursion is enough, and every greater depth gives the same
  list. The hypothesis is needed: when \<open>stepName\<close> lies on a cycle, no depth is enough.
\<close>

theorem findDependency_total_on_acyclic:
  "(acyclic (dependsRel dependsOn) \<longrightarrow>
      (\<exists>fuel names. \<forall>k \<ge> fuel. findDependency k stepName dependsOn = Some names)) \<and>
   ((stepName, stepName) \<in> (dependsRel dependsOn)\<^sup>+ \<longrightarrow>
      (\<forall>fuel. findDependency fuel stepName dependsOn = None))"
proof (intro conjI impI)
  assume "acyclic (dependsRel dependsOn)"
  then obtain fuel names where "findDependency fuel stepName dependsOn = Some names"
    using findDependency_terminates by blast
  then have "\<forall>k \<ge> fuel. findDependency k stepName dependsOn = Some names"
    by (blast intro: findDependency_more_fuel)
  then show "\<exists>fuel names. \<forall>k \<ge> fuel. findDependency k stepName dependsOn = Some names"
    by blast
next
  assume "(stepName, stepName) \<in> (dependsRel dependsOn)\<^sup>+"
  then show "\<forall>fuel. findDependency fuel stepName dependsOn = None"
    by (simp add: findDependency_cycle)
qed

lemma acyclic_by_rank:
  assumes "\<And>t s. (t, s) \<in> r \<Longrightarrow> f s < (f t :: nat)"
  shows "acyclic r"
proof -
  have "r\<inverse> \<subseteq> measure f" using assms by auto
  then have "wf (r\<inverse>)" by (rule wf_subset[OF wf_measure])
  then have "acyclic (r\<inverse>)" by (rule wf_acyclic)
  then show ?thesis by simp
qed

lemma chainMap_acyclic: "acyclic (dependsRel chainMap)"
  by (rule acyclic_by_rank[where f = "\<lambda>x. if x = ''A'' then 0 else if x = ''B'' then 1 else 2"])
     (auto simp: dependsRel_def chainMap_def)

theorem findDependency_total_on_acyclic_witness:
  "acyclic (dependsRel chainMap) \<and>
   (\<exists>fuel names. \<forall>k \<ge> fuel. findDependency k ''A'' chainMap = Some names) \<and>
   findDependency 3 ''A'' chainMap = Some [''B'', ''C'', ''C''] \<and>
   (''A'', ''A'') \<in> (dependsRel cycleMap)\<^sup>+ \<and>
   (\<forall>fuel. findDependency fuel ''A'' cycleMap = None)"
proof -
  have c: "(''A'', ''A'') \<in> (dependsRel cycleMap)\<^sup>+"
  proof -
    have "(''A'', ''B'') \<in> dependsRel cycleMap" "(''B'', ''A'') \<in> dependsRel cycleMap"
      by (simp_all add: dependsRel_def cycleMap_def)
    then show ?thesis by (meson trancl.intros)
  qed
  have e: "findDependency 3 ''A'' chainMap = Some [''B'', ''C'', ''C'']"
    by (simp add: numeral_3_eq_3 chainMap_def)
  have t: "\<exists>fuel names. \<forall>k \<ge> fuel. findDependency k ''A'' chainMap = Some names"
    using findDependency_total_on_acyclic[of chainMap "''A''", THEN conjunct1] chainMap_acyclic
    by blast
  have n: "\<forall>fuel. findDependency fuel ''A'' cycleMap = None"
    using findDependency_total_on_acyclic[of cycleMap "''A''", THEN conjunct2] c
    by blast
  from chainMap_acyclic t e c n show ?thesis by (intro conjI)
qed

subsection \<open>Dependencies in DAG mode\<close>

lemma recordStep_truncate: "recordStep (WorkflowStepBase.truncate step) = recordStep step"
  by (simp add: recordStep_def truncate_step_fields)

lemma addInputs_truncate: "addInputs so (WorkflowStepBase.truncate step) = addInputs so step"
  unfolding addInputs_def truncate_step_fields by (rule refl)

lemma fold_declaredSteps:
  "(\<And>step. f (WorkflowStepBase.truncate step) = g step) \<Longrightarrow>
   fold (\<lambda>step acc. fold f (SubSteps step) (g step acc)) steps acc = fold f (declaredSteps steps) acc"
  by (induction steps arbitrary: acc) (simp_all add: declaredSteps_def)

lemma recordSteps_fold: "recordSteps steps = fold recordStep (declaredSteps steps) ([], [])"
  unfolding recordSteps_def by (rule fold_declaredSteps) (rule recordStep_truncate)

lemma fold_recordStep:
  "fold recordStep bs (d, so) =
     (fold (\<lambda>b. AList.update (WorkflowStepBase.Name b) (DependsOn b)) bs d, fold recordOutputs bs so)"
  by (induction bs arbitrary: d so) (simp_all add: recordStep_def recordOutputs_def)

lemma map_of_fold_update_other:
  "x \<notin> k ` set bs \<Longrightarrow> map_of (fold (\<lambda>b. AList.update (k b) (v b)) bs d) x = map_of d x"
  by (induction bs arbitrary: d) (auto simp: update_conv')

lemma map_of_fold_update_distinct:
  "distinct (map k bs) \<Longrightarrow> b \<in> set bs \<Longrightarrow>
   map_of (fold (\<lambda>b. AList.update (k b) (v b)) bs d) (k b) = Some (v b)"
proof (induction bs arbitrary: d)
  case Nil
  then show ?case by simp
next
  case (Cons a bs)
  show ?case
  proof (cases "b = a")
    case True
    with Cons.prems have "k a \<notin> k ` set bs" by auto
    with True show ?thesis by (simp add: map_of_fold_update_other update_conv')
  next
    case False
    with Cons show ?thesis by auto
  qed
qed

lemma distinct_fold_update:
  "distinct (map fst d) \<Longrightarrow> distinct (map fst (fold (\<lambda>b. AList.update (k b) (v b)) bs d))"
  by (induction bs arbitrary: d) (simp_all add: distinct_update)

lemma map_of_recordOutputs:
  "map_of (recordOutputs b so) x = (if x \<in> outputNames b then Some (WorkflowStepBase.Name b) else map_of so x)"
proof -
  have "map_of (fold (\<lambda>output. AList.update (outputItem.Name output) n) os so) x
      = (if x \<in> outputItem.Name ` set os then Some n else map_of so x)" for os :: "outputItem list" and n
    by (induction os arbitrary: so) (auto simp: update_conv')
  then show ?thesis by (simp add: recordOutputs_def outputNames_def)
qed

lemma stepOutputs_sound:
  "map_of (fold recordOutputs bs so) x = Some p \<Longrightarrow>
   (\<exists>b \<in> set bs. WorkflowStepBase.Name b = p \<and> x \<in> outputNames b) \<or> map_of so x = Some p"
proof (induction bs arbitrary: so)
  case Nil
  then show ?case by simp
next
  case (Cons a bs)
  from Cons.prems have "map_of (fold recordOutputs bs (recordOutputs a so)) x = Some p" by simp
  from Cons.IH[OF this] show ?case
    by (auto simp: map_of_recordOutputs split: if_splits)
qed

lemma stepOutputs_complete:
  "b \<in> set bs \<Longrightarrow> x \<in> outputNames b \<Longrightarrow> map_of (fold recordOutputs bs so) x \<noteq> None"
proof (induction bs arbitrary: so)
  case Nil
  then show ?case by simp
next
  case (Cons a bs)
  have keep: "map_of (fold recordOutputs cs so') x \<noteq> None" if "map_of so' x \<noteq> None" for cs so'
    using that by (induction cs arbitrary: so') (auto simp: map_of_recordOutputs)
  show ?case
  proof (cases "b = a")
    case True
    with Cons.prems show ?thesis by (simp add: keep map_of_recordOutputs)
  next
    case False
    with Cons show ?thesis by auto
  qed
qed

lemma lookupDeps_update:
  "lookupDeps (AList.update n v d) k = (if k = n then v else lookupDeps d k)"
  by (simp add: lookupDeps_def update_conv')

lemma set_lookupDeps_addInputs:
  "set (lookupDeps (addInputs so b d) k) =
     set (lookupDeps d k) \<union>
     (if k = WorkflowStepBase.Name b then {p. \<exists>i \<in> set (Inputs b). map_of so (From i) = Some p} else {})"
proof -
  let ?f = "\<lambda>input dependsOn.
        (case map_of so (From input) of
           Some name \<Rightarrow>
             (if \<not> stringsContain (lookupDeps dependsOn (WorkflowStepBase.Name b)) name
              then AList.update (WorkflowStepBase.Name b)
                     (lookupDeps dependsOn (WorkflowStepBase.Name b) @ [name]) dependsOn
              else dependsOn)
         | None \<Rightarrow> dependsOn)"
  have one: "set (lookupDeps (?f i d') k) =
      set (lookupDeps d' k) \<union>
      (if k = WorkflowStepBase.Name b then {p. map_of so (From i) = Some p} else {})"
    for i :: inputItem and d'
    by (auto simp: lookupDeps_update stringsContain_set split: option.splits)
  have "set (lookupDeps (fold ?f ins d) k) =
      set (lookupDeps d k) \<union>
      (if k = WorkflowStepBase.Name b then {p. \<exists>i \<in> set ins. map_of so (From i) = Some p} else {})"
    for ins :: "inputItem list"
  proof (induction ins arbitrary: d)
    case Nil
    then show ?case by simp
  next
    case (Cons i ins)
    have "set (lookupDeps (fold ?f (i # ins) d) k) = set (lookupDeps (fold ?f ins (?f i d)) k)"
      by simp
    also have "\<dots> = set (lookupDeps (?f i d) k) \<union>
      (if k = WorkflowStepBase.Name b then {p. \<exists>i \<in> set ins. map_of so (From i) = Some p} else {})"
      by (rule Cons.IH)
    also have "\<dots> = set (lookupDeps d k) \<union>
      (if k = WorkflowStepBase.Name b then {p. \<exists>i \<in> set (i # ins). map_of so (From i) = Some p} else {})"
      unfolding one by auto
    finally show ?case .
  qed
  then show ?thesis by (simp add: addInputs_def)
qed

lemma set_lookupDeps_fold_addInputs:
  "set (lookupDeps (fold (addInputs so) bs d) k) =
     set (lookupDeps d k) \<union>
     {p. \<exists>b \<in> set bs. WorkflowStepBase.Name b = k \<and> (\<exists>i \<in> set (Inputs b). map_of so (From i) = Some p)}"
proof (induction bs arbitrary: d)
  case Nil
  then show ?case by simp
next
  case (Cons a bs)
  have "set (lookupDeps (fold (addInputs so) (a # bs) d) k)
      = set (lookupDeps (addInputs so a d) k) \<union>
        {p. \<exists>b \<in> set bs. WorkflowStepBase.Name b = k \<and> (\<exists>i \<in> set (Inputs b). map_of so (From i) = Some p)}"
    using Cons.IH[of "addInputs so a d"] by simp
  then show ?case unfolding set_lookupDeps_addInputs by auto
qed

lemma distinct_addInputs:
  "distinct (map fst d) \<Longrightarrow> distinct (map fst (addInputs so (b :: 'a WorkflowStepBase_scheme) d))"
proof -
  let ?f = "\<lambda>input dependsOn.
        (case map_of so (From input) of
           Some name \<Rightarrow>
             (if \<not> stringsContain (lookupDeps dependsOn (WorkflowStepBase.Name b)) name
              then AList.update (WorkflowStepBase.Name b)
                     (lookupDeps dependsOn (WorkflowStepBase.Name b) @ [name]) dependsOn
              else dependsOn)
         | None \<Rightarrow> dependsOn)"
  have "distinct (map fst d) \<Longrightarrow> distinct (map fst (fold ?f ins d))" for ins :: "inputItem list"
    by (induction ins arbitrary: d) (auto simp: distinct_update split: option.splits)
  then show "distinct (map fst d) \<Longrightarrow> distinct (map fst (addInputs so b d))"
    by (simp add: addInputs_def)
qed

lemma distinct_fold_addInputs:
  "distinct (map fst d) \<Longrightarrow> distinct (map fst (fold (addInputs so) (bs :: WorkflowStepBase list) d))"
  by (induction bs arbitrary: d) (simp_all add: distinct_addInputs)

lemma buildDependsOn_fold:
  "buildDependsOn steps =
     fold (addInputs (fold recordOutputs (declaredSteps steps) []))
       (declaredSteps steps)
       (fold (\<lambda>b. AList.update (WorkflowStepBase.Name b) (DependsOn b)) (declaredSteps steps) [])"
proof -
  have "fold (\<lambda>step acc. fold (addInputs so) (SubSteps step) (addInputs so step acc)) steps d
      = fold (addInputs so) (declaredSteps steps) d" for so d
    by (rule fold_declaredSteps) (rule addInputs_truncate)
  then show ?thesis
    by (simp add: buildDependsOn_def recordSteps_fold fold_recordStep)
qed

lemma distinct_buildDependsOn: "distinct (map fst (buildDependsOn steps))"
  unfolding buildDependsOn_fold
  by (intro distinct_fold_addInputs distinct_fold_update) simp

lemma dependsRel_lookupDeps:
  "distinct (map fst m) \<Longrightarrow> dependsRel m = {(t, s). s \<in> set (lookupDeps m t)}"
  by (auto simp: dependsRel_def lookupDeps_def split: option.splits)

lemma stepOutputs_producer:
  assumes "uniqueProducers steps"
  shows "map_of (fold recordOutputs (declaredSteps steps) []) x = Some p \<longleftrightarrow>
     (\<exists>d \<in> set (declaredSteps steps). WorkflowStepBase.Name d = p \<and> x \<in> outputNames d)"
proof
  assume "map_of (fold recordOutputs (declaredSteps steps) []) x = Some p"
  from stepOutputs_sound[OF this]
  show "\<exists>d \<in> set (declaredSteps steps). WorkflowStepBase.Name d = p \<and> x \<in> outputNames d"
    by simp
next
  assume "\<exists>d \<in> set (declaredSteps steps). WorkflowStepBase.Name d = p \<and> x \<in> outputNames d"
  then obtain d where d: "d \<in> set (declaredSteps steps)" "WorkflowStepBase.Name d = p" "x \<in> outputNames d"
    by blast
  from stepOutputs_complete[OF d(1,3), of "[]"]
  obtain q where q: "map_of (fold recordOutputs (declaredSteps steps) []) x = Some q" by auto
  from stepOutputs_sound[OF q]
  obtain d' where d': "d' \<in> set (declaredSteps steps)" "WorkflowStepBase.Name d' = q" "x \<in> outputNames d'"
    by auto
  from assms d(1) d'(1) d(3) d'(3) have "WorkflowStepBase.Name d = WorkflowStepBase.Name d'"
    unfolding uniqueProducers_def by blast
  with q d(2) d'(2) show "map_of (fold recordOutputs (declaredSteps steps) []) x = Some p" by simp
qed

lemma buildDependsOn_entry:
  assumes dist: "distinct (map WorkflowStepBase.Name (declaredSteps steps))"
    and uniq: "uniqueProducers steps"
    and b: "b \<in> set (declaredSteps steps)"
  shows "set (lookupDeps (buildDependsOn steps) (WorkflowStepBase.Name b)) = set (DependsOn b) \<union> producersOf steps b"
proof -
  let ?bs = "declaredSteps steps"
  let ?so = "fold recordOutputs ?bs []"
  let ?d1 = "fold (\<lambda>b. AList.update (WorkflowStepBase.Name b) (DependsOn b)) ?bs []"
  have 1: "lookupDeps ?d1 (WorkflowStepBase.Name b) = DependsOn b"
    using map_of_fold_update_distinct[OF dist b, of DependsOn "[]"]
    by (simp add: lookupDeps_def)
  have same: "b' = b" if "b' \<in> set ?bs" "WorkflowStepBase.Name b' = WorkflowStepBase.Name b" for b'
    using that dist b by (meson distinct_map inj_onD)
  have 2: "{p. \<exists>b' \<in> set ?bs. WorkflowStepBase.Name b' = WorkflowStepBase.Name b \<and>
               (\<exists>i \<in> set (Inputs b'). map_of ?so (From i) = Some p)}
         = {p. \<exists>i \<in> set (Inputs b). map_of ?so (From i) = Some p}"
    using same b by blast
  have 3: "{p. \<exists>i \<in> set (Inputs b). map_of ?so (From i) = Some p} = producersOf steps b"
    unfolding producersOf_def stepOutputs_producer[OF uniq] by blast
  show ?thesis
    unfolding buildDependsOn_fold set_lookupDeps_fold_addInputs 1 2 3 ..
qed

lemma entriesLoop_None_iff:
  "entriesLoop recur stepName entries acc = None \<longleftrightarrow>
     (\<exists>(step, deps) \<in> set entries. stepName \<in> set deps \<and> recur step = None)"
proof
  assume n: "entriesLoop recur stepName entries acc = None"
  show "\<exists>(step, deps) \<in> set entries. stepName \<in> set deps \<and> recur step = None"
  proof (rule ccontr)
    assume "\<not> (\<exists>(step, deps) \<in> set entries. stepName \<in> set deps \<and> recur step = None)"
    then have "\<forall>(step, deps) \<in> set entries. stepName \<in> set deps \<longrightarrow> recur step \<noteq> None"
      by auto
    from entriesLoop_Some[OF this, of acc] n show False by auto
  qed
next
  assume "\<exists>(step, deps) \<in> set entries. stepName \<in> set deps \<and> recur step = None"
  then obtain step deps where "(step, deps) \<in> set entries" "stepName \<in> set deps" "recur step = None"
    by auto
  then show "entriesLoop recur stepName entries acc = None" by (rule entriesLoop_None)
qed

text \<open>
  The order of the entries does not matter: two lists with the same entries give, at
  every depth, either no result both or results with the same names.
\<close>

lemma findDependency_order:
  "set m = set m' \<Longrightarrow>
   rel_option (\<lambda>a b. set a = set b) (findDependency fuel stepName m) (findDependency fuel stepName m')"
proof (induction fuel arbitrary: stepName)
  case 0
  then show ?case by simp
next
  case (Suc fuel)
  let ?r = "\<lambda>step. findDependency fuel step m"
  let ?r' = "\<lambda>step. findDependency fuel step m'"
  have ih: "rel_option (\<lambda>a b. set a = set b) (?r step) (?r' step)" for step
    using Suc by simp
  have none: "?r step = None \<longleftrightarrow> ?r' step = None" for step
    using ih[of step] by (cases "?r step"; cases "?r' step") simp_all
  have same: "set (the (?r step)) = set (the (?r' step))" if "?r step \<noteq> None" for step
    using ih[of step] that by (cases "?r step"; cases "?r' step") simp_all
  show ?case
  proof (cases "entriesLoop ?r stepName m []")
    case None
    then have "\<exists>(step, deps) \<in> set m'. stepName \<in> set deps \<and> ?r' step = None"
      unfolding entriesLoop_None_iff using Suc.prems none by auto
    then have "entriesLoop ?r' stepName m' [] = None"
      unfolding entriesLoop_None_iff .
    with None show ?thesis by simp
  next
    case (Some d)
    then have ok: "\<forall>(step, deps) \<in> set m. stepName \<in> set deps \<longrightarrow> ?r step \<noteq> None"
      using entriesLoop_Some_D[OF Some] by auto
    then have ok': "\<forall>(step, deps) \<in> set m'. stepName \<in> set deps \<longrightarrow> ?r' step \<noteq> None"
      using Suc.prems none by auto
    from entriesLoop_Some[OF ok, of "[]"] Some
    have d: "set d = (\<Union>(step, deps) \<in> set m.
                 if stepName \<in> set deps then insert step (set (the (?r step))) else {})"
      by auto
    from entriesLoop_Some[OF ok', of "[]"]
    obtain d' where d': "entriesLoop ?r' stepName m' [] = Some d'"
      "set d' = (\<Union>(step, deps) \<in> set m'.
                 if stepName \<in> set deps then insert step (set (the (?r' step))) else {})"
      by auto
    have "(if stepName \<in> set deps then insert step (set (the (?r step))) else {})
        = (if stepName \<in> set deps then insert step (set (the (?r' step))) else {})"
      if "(step, deps) \<in> set m" for step deps
    proof (cases "stepName \<in> set deps")
      case True
      with ok that have "?r step \<noteq> None" by auto
      from same[OF this] True show ?thesis by simp
    next
      case False
      then show ?thesis by simp
    qed
    then have "set d = set d'"
      unfolding d d'(2) Suc.prems[symmetric] by (intro SUP_cong refl) auto
    with Some d'(1) show ?thesis by simp
  qed
qed

text \<open>
  Claim C4, amended. Let the names of the declared steps and substeps be pairwise
  distinct, and let no output name be declared by two steps of different names. Then, in
  DAG mode, the map \<open>dependsOn\<close> that \<^verbatim>\<open>getStepDependency\<close> builds holds, for every declared step
  and substep \<open>b\<close>, the names in its \<^verbatim>\<open>DependsOn\<close> together with the names of the steps that
  declare an output which \<open>b\<close> reads. With or without these conditions, the relation of
  the map is given by its lookups; whenever \<^verbatim>\<open>getStepDependency\<close> returns a list, the names
  in it are exactly the steps that transitively list \<open>stepName\<close> in the map; and when the
  relation has no cycle it does return such a list.
\<close>

theorem getStepDependency_dag:
  "(distinct (map WorkflowStepBase.Name (declaredSteps steps)) \<and> uniqueProducers steps \<and>
    b \<in> set (declaredSteps steps) \<longrightarrow>
      set (lookupDeps (buildDependsOn steps) (WorkflowStepBase.Name b)) = set (DependsOn b) \<union> producersOf steps b) \<and>
   dependsRel (buildDependsOn steps) = {(t, s). s \<in> set (lookupDeps (buildDependsOn steps) t)} \<and>
   (getStepDependency fuel steps stepName True = Some names \<longrightarrow>
      set names = {t. (t, stepName) \<in> (dependsRel (buildDependsOn steps))\<^sup>+}) \<and>
   (acyclic (dependsRel (buildDependsOn steps)) \<longrightarrow>
      (\<exists>enough found. getStepDependency enough steps stepName True = Some found \<and>
         set found = {t. (t, stepName) \<in> (dependsRel (buildDependsOn steps))\<^sup>+}))"
proof (intro conjI impI)
  assume "distinct (map WorkflowStepBase.Name (declaredSteps steps)) \<and> uniqueProducers steps \<and>
    b \<in> set (declaredSteps steps)"
  then show "set (lookupDeps (buildDependsOn steps) (WorkflowStepBase.Name b)) = set (DependsOn b) \<union> producersOf steps b"
    by (simp add: buildDependsOn_entry)
next
  show "dependsRel (buildDependsOn steps) = {(t, s). s \<in> set (lookupDeps (buildDependsOn steps) t)}"
    using distinct_buildDependsOn by (rule dependsRel_lookupDeps)
next
  assume "getStepDependency fuel steps stepName True = Some names"
  then show "set names = {t. (t, stepName) \<in> (dependsRel (buildDependsOn steps))\<^sup>+}"
    by (simp add: getStepDependency_def findDependency_set)
next
  assume "acyclic (dependsRel (buildDependsOn steps))"
  then obtain enough found where f: "findDependency enough stepName (buildDependsOn steps) = Some found"
    using findDependency_terminates by blast
  then have "getStepDependency enough steps stepName True = Some found"
    by (simp add: getStepDependency_def)
  moreover from f have "set found = {t. (t, stepName) \<in> (dependsRel (buildDependsOn steps))\<^sup>+}"
    by (rule findDependency_set)
  ultimately show "\<exists>enough found. getStepDependency enough steps stepName True = Some found \<and>
         set found = {t. (t, stepName) \<in> (dependsRel (buildDependsOn steps))\<^sup>+}"
    by blast
qed

lemma buildDependsOn_pipeline:
  "buildDependsOn pipeline =
     [(''A'', []), (''B'', [''A'']), (''G'', [''B'']), (''g1'', []), (''g2'', [''g1'']),
      (''g3'', [''g1'']), (''C'', [''G''])]"
  by (simp add: buildDependsOn_def recordSteps_def recordStep_def addInputs_def lookupDeps_def
      pipeline_def mk_defs constant_defs)

lemma dependsRel_Nil: "dependsRel [] = {}"
  by (simp add: dependsRel_def)

lemma dependsRel_Cons: "dependsRel ((t, deps) # m) = Pair t ` set deps \<union> dependsRel m"
  by (auto simp: dependsRel_def)

lemma pipeline_acyclic: "acyclic (dependsRel (buildDependsOn pipeline))"
  unfolding buildDependsOn_pipeline dependsRel_Cons dependsRel_Nil
  by (rule acyclic_by_rank[where f = "\<lambda>x. if x = ''C'' then 3 else if x = ''G'' then 2
        else if x = ''B'' \<or> x = ''g2'' \<or> x = ''g3'' then 1 else 0"])
     (simp, elim disjE conjE; simp)

lemma pipeline_wellformed:
  "distinct (map WorkflowStepBase.Name (declaredSteps pipeline))" "uniqueProducers pipeline"
  by (auto simp: uniqueProducers_def outputNames_def declaredSteps_def pipeline_def mk_defs
      WorkflowStepBase.truncate_def)

theorem getStepDependency_dag_witness:
  "set (lookupDeps (buildDependsOn pipeline) ''g3'') = {''g1''} \<and>
   getStepDependency 4 pipeline ''A'' True = Some [''B'', ''G'', ''C''] \<and>
   {t. (t, ''A'') \<in> (dependsRel (buildDependsOn pipeline))\<^sup>+} = {''B'', ''G'', ''C''} \<and>
   acyclic (dependsRel (buildDependsOn pipeline)) \<and>
   (\<exists>enough found. getStepDependency enough pipeline ''A'' True = Some found \<and>
      set found = {''B'', ''G'', ''C''})"
proof -
  have g: "getStepDependency 4 pipeline ''A'' True = Some [''B'', ''G'', ''C'']"
    by (simp add: getStepDependency_def buildDependsOn_pipeline eval_nat_numeral)
  have b: "SubSteps (pipeline ! 2) ! 2 \<in> set (declaredSteps pipeline)"
    by (simp add: declaredSteps_def pipeline_def mk_defs)
  have p: "producersOf pipeline (SubSteps (pipeline ! 2) ! 2) = {''g1''}"
    by (auto simp: producersOf_def outputNames_def declaredSteps_def pipeline_def mk_defs
        WorkflowStepBase.truncate_def)
  have 1: "set (lookupDeps (buildDependsOn pipeline) ''g3'') = {''g1''}"
    using getStepDependency_dag[where steps = pipeline and b = "SubSteps (pipeline ! 2) ! 2",
        THEN conjunct1] pipeline_wellformed b p
    by (simp add: pipeline_def mk_defs)
  have 2: "{t. (t, ''A'') \<in> (dependsRel (buildDependsOn pipeline))\<^sup>+} = {''B'', ''G'', ''C''}"
    using getStepDependency_dag[where steps = pipeline and fuel = 4 and stepName = "''A''"
        and names = "[''B'', ''G'', ''C'']", THEN conjunct2, THEN conjunct2, THEN conjunct1] g
    by auto
  have 3: "\<exists>enough found. getStepDependency enough pipeline ''A'' True = Some found \<and>
      set found = {''B'', ''G'', ''C''}"
    using getStepDependency_dag[where steps = pipeline and stepName = "''A''",
        THEN conjunct2, THEN conjunct2, THEN conjunct2] pipeline_acyclic 2
    by simp
  from 1 g 2 pipeline_acyclic 3 show ?thesis by (intro conjI)
qed

lemma buildDependsOn_sharedOutput:
  "buildDependsOn sharedOutputSteps = [(''P1'', []), (''P2'', []), (''V'', [''P2''])]"
  by (simp add: buildDependsOn_def recordSteps_def recordStep_def addInputs_def lookupDeps_def
      sharedOutputSteps_def mk_defs constant_defs)

lemma buildDependsOn_shadowed:
  "buildDependsOn shadowedSteps = [(''a'', []), (''G1'', []), (''s'', []), (''G2'', [])]"
  by (simp add: buildDependsOn_def recordSteps_def recordStep_def addInputs_def lookupDeps_def
      shadowedSteps_def mk_defs constant_defs)

text \<open>
  The claim as the specification states it fails without the two conditions. In
  \<^const>\<open>sharedOutputSteps\<close> the names are distinct and \<open>V\<close> reads an output that \<open>P1\<close> and \<open>P2\<close>
  declare, yet the map lists only \<open>P2\<close> for \<open>V\<close> (the later declaration replaces the
  earlier one in \<^verbatim>\<open>stepOutputs\<close>), and \<open>P1\<close> has no dependent. In \<^const>\<open>shadowedSteps\<close> no
  output is declared twice and the substep \<open>s\<close> of \<open>G1\<close> depends on \<open>a\<close>, yet the map lists
  nothing for \<open>s\<close> (the entry of the second \<open>s\<close> replaces it), and \<open>a\<close> has no dependent.
\<close>

theorem getStepDependency_dag_counterexample:
  "distinct (map WorkflowStepBase.Name (declaredSteps sharedOutputSteps)) \<and>
   WorkflowStepBase.truncate (sharedOutputSteps ! 2) \<in> set (declaredSteps sharedOutputSteps) \<and>
   WorkflowStepBase.Name (WorkflowStepBase.truncate (sharedOutputSteps ! 2)) = ''V'' \<and>
   set (DependsOn (WorkflowStepBase.truncate (sharedOutputSteps ! 2)))
     \<union> producersOf sharedOutputSteps (WorkflowStepBase.truncate (sharedOutputSteps ! 2)) = {''P1'', ''P2''} \<and>
   set (lookupDeps (buildDependsOn sharedOutputSteps) ''V'') = {''P2''} \<and>
   getStepDependency 1 sharedOutputSteps ''P1'' True = Some [] \<and>
   uniqueProducers shadowedSteps \<and>
   SubSteps (shadowedSteps ! 1) ! 0 \<in> set (declaredSteps shadowedSteps) \<and>
   WorkflowStepBase.Name (SubSteps (shadowedSteps ! 1) ! 0) = ''s'' \<and>
   set (DependsOn (SubSteps (shadowedSteps ! 1) ! 0))
     \<union> producersOf shadowedSteps (SubSteps (shadowedSteps ! 1) ! 0) = {''a''} \<and>
   set (lookupDeps (buildDependsOn shadowedSteps) ''s'') = {} \<and>
   getStepDependency 1 shadowedSteps ''a'' True = Some []"
proof -
  have 1: "distinct (map WorkflowStepBase.Name (declaredSteps sharedOutputSteps))"
    "WorkflowStepBase.truncate (sharedOutputSteps ! 2) \<in> set (declaredSteps sharedOutputSteps)"
    "WorkflowStepBase.Name (WorkflowStepBase.truncate (sharedOutputSteps ! 2)) = ''V''"
    by (simp_all add: declaredSteps_def sharedOutputSteps_def mk_defs WorkflowStepBase.truncate_def)
  have 2: "set (DependsOn (WorkflowStepBase.truncate (sharedOutputSteps ! 2)))
     \<union> producersOf sharedOutputSteps (WorkflowStepBase.truncate (sharedOutputSteps ! 2)) = {''P1'', ''P2''}"
    by (auto simp: producersOf_def outputNames_def declaredSteps_def sharedOutputSteps_def mk_defs
        WorkflowStepBase.truncate_def)
  have 3: "set (lookupDeps (buildDependsOn sharedOutputSteps) ''V'') = {''P2''}"
    by (simp add: buildDependsOn_sharedOutput lookupDeps_def)
  have 4: "getStepDependency 1 sharedOutputSteps ''P1'' True = Some []"
    by (simp add: getStepDependency_def buildDependsOn_sharedOutput)
  have 5: "uniqueProducers shadowedSteps"
    "SubSteps (shadowedSteps ! 1) ! 0 \<in> set (declaredSteps shadowedSteps)"
    "WorkflowStepBase.Name (SubSteps (shadowedSteps ! 1) ! 0) = ''s''"
    by (simp_all add: uniqueProducers_def outputNames_def declaredSteps_def shadowedSteps_def mk_defs
        WorkflowStepBase.truncate_def)
  have 6: "set (DependsOn (SubSteps (shadowedSteps ! 1) ! 0))
     \<union> producersOf shadowedSteps (SubSteps (shadowedSteps ! 1) ! 0) = {''a''}"
    by (simp add: producersOf_def outputNames_def declaredSteps_def shadowedSteps_def mk_defs
        WorkflowStepBase.truncate_def)
  have 7: "set (lookupDeps (buildDependsOn shadowedSteps) ''s'') = {}"
    by (simp add: buildDependsOn_shadowed lookupDeps_def)
  have 8: "getStepDependency 1 shadowedSteps ''a'' True = Some []"
    by (simp add: getStepDependency_def buildDependsOn_shadowed)
  from 1 2 3 4 5 6 7 8 show ?thesis by (intro conjI)
qed

subsection \<open>Restart from a step\<close>

lemma deleteStepStatus_filter:
  "deleteStepStatus deps sts stepName inGroup =
     filter (\<lambda>e. StepStatus.Name e \<notin> set deps \<and> (inGroup \<or> StepStatus.Name e \<noteq> stepName)) sts"
  by (induction sts) (auto simp: stringsContain_set)

lemma deleteSubStepStatus_filter:
  "deleteSubStepStatus deps subs stepName =
     filter (\<lambda>e. StepStatus.Name e \<notin> set deps \<and> StepStatus.Name e \<noteq> stepName) subs"
  by (induction subs) (auto simp: stringsContain_set)

lemma find_statusEntries_None:
  "find (\<lambda>e. StepStatus.Name e = stepName) (statusEntries sts) = None \<longleftrightarrow>
     (\<forall>e \<in> set sts. \<not> mentions stepName e)"
  by (auto simp: find_None_iff statusEntries_def mentions_def truncate_fields)

lemma restartLoop_skip:
  assumes "stepStatus st = pre @ before @ rest" and "\<forall>e \<in> set before. \<not> mentions stepName e"
  shows "restartLoop fuel steps mode stepName (length before + n) (length pre) st
       = restartLoop fuel steps mode stepName n (length pre + length before) st"
  using assms
proof (induction before arbitrary: pre)
  case Nil
  then show ?case by simp
next
  case (Cons e before)
  from Cons.prems(1) have at: "stepStatus st ! length pre = e" by simp
  from Cons.prems(2) have no: "StepStatus.Name e \<noteq> stepName"
      "find (\<lambda>sub. StepStatus.Name sub = stepName) (SubStepsStatus e) = None"
    by (auto simp: mentions_def find_None_iff)
  have "restartLoop fuel steps mode stepName (length (e # before) + n) (length pre) st
      = restartLoop fuel steps mode stepName (length before + n) (Suc (length pre)) st"
    using at no by (simp add: Let_def)
  also have "\<dots> = restartLoop fuel steps mode stepName (length before + n) (length (pre @ [e])) st"
    by simp
  also have "\<dots> = restartLoop fuel steps mode stepName n (length (pre @ [e]) + length before) st"
    using Cons.prems by (intro Cons.IH) simp_all
  finally show ?case by simp
qed

lemma restartLoop_step:
  assumes sts: "stepStatus st = before @ target # after"
    and before: "\<forall>e \<in> set before. \<not> mentions stepName e"
    and target: "StepStatus.Name target = stepName" "Phase target = WorkflowStepPhaseFailed"
    and deps: "getStepDependency fuel steps stepName (WorkflowExecuteMode.Steps mode = WorkflowModeDAG) = Some deps"
  shows "restartLoop fuel steps mode stepName (length (stepStatus st)) 0 st =
     Some (None, st\<lparr>dependency := deps,
                    runSteps := deleteStepStatus deps (stepStatus st) stepName False,
                    shared := False, found := True\<rparr>)"
proof -
  have "restartLoop fuel steps mode stepName (length before + Suc (length after)) (length ([] :: WorkflowStepStatus list)) st
      = restartLoop fuel steps mode stepName (Suc (length after)) (length ([] :: WorkflowStepStatus list) + length before) st"
    using sts before by (intro restartLoop_skip) simp_all
  moreover have "stepStatus st ! length before = target" using sts by simp
  ultimately show ?thesis using target deps sts by (simp add: Let_def)
qed

lemma restartLoop_substep:
  assumes sts: "stepStatus st = before @ grp # after" and run: "runSteps st = stepStatus st" "shared st"
    and before: "\<forall>e \<in> set before. \<not> mentions stepName e"
    and after: "\<forall>e \<in> set after. \<not> mentions stepName e"
    and grp: "StepStatus.Name grp \<noteq> stepName"
      "find (\<lambda>sub. StepStatus.Name sub = stepName) (SubStepsStatus grp) = Some sub"
      "Phase sub = WorkflowStepPhaseFailed"
    and subDeps: "getStepDependency fuel steps stepName (WorkflowExecuteMode.SubSteps mode = WorkflowModeDAG) = Some subDeps"
    and stepDeps: "getStepDependency fuel steps (StepStatus.Name grp) (WorkflowExecuteMode.Steps mode = WorkflowModeDAG) = Some stepDeps"
  shows "\<exists>st'. restartLoop fuel steps mode stepName (length (stepStatus st)) 0 st = Some (None, st') \<and>
     found st' \<and>
     runSteps st' = deleteStepStatus stepDeps
        (before @ grp\<lparr>Phase := WorkflowStepPhaseRunning, Reason := [],
                        SubStepsStatus := deleteSubStepStatus subDeps (SubStepsStatus grp) stepName\<rparr> # after)
        stepName True"
proof -
  let ?grp' = "grp\<lparr>Phase := WorkflowStepPhaseRunning, Reason := [],
                        SubStepsStatus := deleteSubStepStatus subDeps (SubStepsStatus grp) stepName\<rparr>"
  let ?reset = "resetGroup (length before) (deleteSubStepStatus subDeps (SubStepsStatus grp) stepName) st"
  let ?final = "?reset\<lparr>runSteps := deleteStepStatus stepDeps (stepStatus ?reset) stepName True,
                    shared := False,
                    dependency := mergeUniqueStringSlice subDeps stepDeps,
                    found := True\<rparr>"
  have skip: "restartLoop fuel steps mode stepName (length before + Suc (length after)) (length ([] :: WorkflowStepStatus list)) st
      = restartLoop fuel steps mode stepName (Suc (length after)) (length ([] :: WorkflowStepStatus list) + length before) st"
    using sts before by (intro restartLoop_skip) simp_all
  have at: "stepStatus st ! length before = grp" using sts by simp
  have s1: "stepStatus ?reset = before @ ?grp' # after"
    using sts run by (simp add: resetGroup_def Let_def)
  have here: "restartLoop fuel steps mode stepName (Suc (length after)) (length before) st
      = restartLoop fuel steps mode stepName (length after) (Suc (length before)) ?final"
    using at grp subDeps stepDeps sts run by (simp add: Let_def)
  have s2: "stepStatus ?final = before @ ?grp' # after" using s1 by simp
  have "find (\<lambda>e. StepStatus.Name e = stepName) (statusEntries (drop (Suc (length before)) (stepStatus ?final))) = None"
    unfolding s2 using after by (simp add: find_statusEntries_None)
  moreover have "length after = length (stepStatus ?final) - Suc (length before)"
    unfolding s2 by simp
  ultimately have rest: "restartLoop fuel steps mode stepName (length after) (Suc (length before)) ?final = Some (None, ?final)"
    by (intro restartLoop_no_match)
  have "restartLoop fuel steps mode stepName (length (stepStatus st)) 0 st = Some (None, ?final)"
    using skip here rest sts by simp
  moreover have "found ?final" by simp
  moreover have "runSteps ?final = deleteStepStatus stepDeps (before @ ?grp' # after) stepName True"
    using s1 by simp
  ultimately show ?thesis by blast
qed

lemma RestartFromStep_found:
  assumes "stepName \<noteq> []" and "specSteps c r = Inr steps"
    and "restartLoop fuel steps (WorkflowRunStatus.Mode (Status r)) stepName
           (length (WorkflowRunStatus.Steps (Status r))) 0
           \<lparr>stepStatus = WorkflowRunStatus.Steps (Status r), runSteps = WorkflowRunStatus.Steps (Status r),
            shared = True, dependency = [], found = False\<rparr> = Some (None, st)"
    and "found st"
  shows "\<exists>res. RestartFromStep fuel q c r stepName = Some res \<and>
     run res = restarted r (runSteps st) \<and> calls res \<noteq> [] \<and> hd (calls res) = StatusUpdate (run res)"
  using assms
  by (auto simp: RestartFromStep_def Let_def specSteps_Status restarted_def clearContext_def
      split: option.splits sum.splits)

text \<open>
  Claim C3, amended. Let the steps of the run be readable, let the first status entry
  that carries \<open>stepName\<close> be failed, and let \<^verbatim>\<open>getStepDependency\<close> return. Then
  \<^verbatim>\<open>RestartFromStep\<close> returns, the run has \<open>Terminated\<close>, \<open>Suspend\<close>, \<open>Finished\<close> and
  \<open>EndTime\<close> cleared, and its first call writes this status back. When the entry is a
  step, the steps of the status are the old ones without the entries named \<open>stepName\<close>
  or named in the dependency list, all others unchanged and in their order (entries of
  substeps inside another step are not looked at). When the entry is a substep of a
  step and no other entry carries the name, that step loses the substep entries named
  \<open>stepName\<close> or named in the dependency list of \<open>stepName\<close>, gets the phase Running and
  an empty reason, and the status loses the entries named in the dependency list of
  that step, all others unchanged.
\<close>

theorem RestartFromStep_deletes:
  "(stepName \<noteq> [] \<and> specSteps c r = Inr steps \<and>
    WorkflowRunStatus.Steps (Status r) = before @ target # after \<and>
    (\<forall>e \<in> set before. \<not> mentions stepName e) \<and>
    StepStatus.Name target = stepName \<and> Phase target = WorkflowStepPhaseFailed \<and>
    getStepDependency fuel steps stepName
      (WorkflowExecuteMode.Steps (WorkflowRunStatus.Mode (Status r)) = WorkflowModeDAG) = Some deps \<longrightarrow>
      (\<exists>res. RestartFromStep fuel q c r stepName = Some res \<and>
         run res = restarted r
           (filter (\<lambda>e. StepStatus.Name e \<noteq> stepName \<and> StepStatus.Name e \<notin> set deps)
              (WorkflowRunStatus.Steps (Status r))) \<and>
         calls res \<noteq> [] \<and> hd (calls res) = StatusUpdate (run res))) \<and>
   (stepName \<noteq> [] \<and> specSteps c r = Inr steps \<and>
    WorkflowRunStatus.Steps (Status r) = before @ target # after \<and>
    (\<forall>e \<in> set before. \<not> mentions stepName e) \<and> (\<forall>e \<in> set after. \<not> mentions stepName e) \<and>
    StepStatus.Name target \<noteq> stepName \<and>
    find (\<lambda>sub. StepStatus.Name sub = stepName) (SubStepsStatus target) = Some sub \<and>
    Phase sub = WorkflowStepPhaseFailed \<and>
    getStepDependency fuel steps stepName
      (WorkflowExecuteMode.SubSteps (WorkflowRunStatus.Mode (Status r)) = WorkflowModeDAG) = Some subDeps \<and>
    getStepDependency fuel steps (StepStatus.Name target)
      (WorkflowExecuteMode.Steps (WorkflowRunStatus.Mode (Status r)) = WorkflowModeDAG) = Some deps \<longrightarrow>
      (\<exists>res. RestartFromStep fuel q c r stepName = Some res \<and>
         run res = restarted r
           (filter (\<lambda>e. StepStatus.Name e \<notin> set deps)
              (before @
               target\<lparr>Phase := WorkflowStepPhaseRunning, Reason := [],
                       SubStepsStatus :=
                         filter (\<lambda>e. StepStatus.Name e \<noteq> stepName \<and> StepStatus.Name e \<notin> set subDeps)
                           (SubStepsStatus target)\<rparr> # after)) \<and>
         calls res \<noteq> [] \<and> hd (calls res) = StatusUpdate (run res)))"
proof (intro conjI impI)
  let ?init = "\<lparr>stepStatus = WorkflowRunStatus.Steps (Status r), runSteps = WorkflowRunStatus.Steps (Status r),
            shared = True, dependency = [], found = False\<rparr>"
  assume a: "stepName \<noteq> [] \<and> specSteps c r = Inr steps \<and>
    WorkflowRunStatus.Steps (Status r) = before @ target # after \<and>
    (\<forall>e \<in> set before. \<not> mentions stepName e) \<and>
    StepStatus.Name target = stepName \<and> Phase target = WorkflowStepPhaseFailed \<and>
    getStepDependency fuel steps stepName
      (WorkflowExecuteMode.Steps (WorkflowRunStatus.Mode (Status r)) = WorkflowModeDAG) = Some deps"
  then have "restartLoop fuel steps (WorkflowRunStatus.Mode (Status r)) stepName (length (stepStatus ?init)) 0 ?init =
     Some (None, ?init\<lparr>dependency := deps,
                    runSteps := deleteStepStatus deps (stepStatus ?init) stepName False,
                    shared := False, found := True\<rparr>)"
    by (intro restartLoop_step[where before = before and target = target and after = after]) simp_all
  then have "restartLoop fuel steps (WorkflowRunStatus.Mode (Status r)) stepName
       (length (WorkflowRunStatus.Steps (Status r))) 0 ?init =
     Some (None, ?init\<lparr>dependency := deps,
                    runSteps := deleteStepStatus deps (WorkflowRunStatus.Steps (Status r)) stepName False,
                    shared := False, found := True\<rparr>)"
    by simp
  from RestartFromStep_found[OF _ _ this, of c q] a
  show "\<exists>res. RestartFromStep fuel q c r stepName = Some res \<and>
         run res = restarted r
           (filter (\<lambda>e. StepStatus.Name e \<noteq> stepName \<and> StepStatus.Name e \<notin> set deps)
              (WorkflowRunStatus.Steps (Status r))) \<and>
         calls res \<noteq> [] \<and> hd (calls res) = StatusUpdate (run res)"
    by (simp add: deleteStepStatus_filter conj_commute)
next
  let ?init = "\<lparr>stepStatus = WorkflowRunStatus.Steps (Status r), runSteps = WorkflowRunStatus.Steps (Status r),
            shared = True, dependency = [], found = False\<rparr>"
  assume a: "stepName \<noteq> [] \<and> specSteps c r = Inr steps \<and>
    WorkflowRunStatus.Steps (Status r) = before @ target # after \<and>
    (\<forall>e \<in> set before. \<not> mentions stepName e) \<and> (\<forall>e \<in> set after. \<not> mentions stepName e) \<and>
    StepStatus.Name target \<noteq> stepName \<and>
    find (\<lambda>sub. StepStatus.Name sub = stepName) (SubStepsStatus target) = Some sub \<and>
    Phase sub = WorkflowStepPhaseFailed \<and>
    getStepDependency fuel steps stepName
      (WorkflowExecuteMode.SubSteps (WorkflowRunStatus.Mode (Status r)) = WorkflowModeDAG) = Some subDeps \<and>
    getStepDependency fuel steps (StepStatus.Name target)
      (WorkflowExecuteMode.Steps (WorkflowRunStatus.Mode (Status r)) = WorkflowModeDAG) = Some deps"
  then have "\<exists>st'. restartLoop fuel steps (WorkflowRunStatus.Mode (Status r)) stepName (length (stepStatus ?init)) 0 ?init
        = Some (None, st') \<and> found st' \<and>
     runSteps st' = deleteStepStatus deps
        (before @ target\<lparr>Phase := WorkflowStepPhaseRunning, Reason := [],
                        SubStepsStatus := deleteSubStepStatus subDeps (SubStepsStatus target) stepName\<rparr> # after)
        stepName True"
    by (intro restartLoop_substep[where sub = sub]) simp_all
  then obtain st' where st': "restartLoop fuel steps (WorkflowRunStatus.Mode (Status r)) stepName
       (length (WorkflowRunStatus.Steps (Status r))) 0 ?init = Some (None, st')" "found st'"
     "runSteps st' = deleteStepStatus deps
        (before @ target\<lparr>Phase := WorkflowStepPhaseRunning, Reason := [],
                        SubStepsStatus := deleteSubStepStatus subDeps (SubStepsStatus target) stepName\<rparr> # after)
        stepName True"
    by auto
  from RestartFromStep_found[OF _ _ st'(1,2), of c q] a st'(3)
  show "\<exists>res. RestartFromStep fuel q c r stepName = Some res \<and>
         run res = restarted r
           (filter (\<lambda>e. StepStatus.Name e \<notin> set deps)
              (before @
               target\<lparr>Phase := WorkflowStepPhaseRunning, Reason := [],
                       SubStepsStatus :=
                         filter (\<lambda>e. StepStatus.Name e \<noteq> stepName \<and> StepStatus.Name e \<notin> set subDeps)
                           (SubStepsStatus target)\<rparr> # after)) \<and>
         calls res \<noteq> [] \<and> hd (calls res) = StatusUpdate (run res)"
    by (simp add: deleteStepStatus_filter deleteSubStepStatus_filter conj_commute)
qed

theorem RestartFromStep_deletes_witness:
  "(\<exists>res. RestartFromStep 0 cueStub quietClient failedRun ''B'' = Some res \<and>
      map StepStatus.Name (WorkflowRunStatus.Steps (Status (run res))) = [''A''] \<and>
      \<not> Terminated (Status (run res)) \<and> \<not> Suspend (Status (run res)) \<and>
      \<not> Finished (Status (run res)) \<and> EndTime (Status (run res)) = None \<and>
      hd (calls res) = StatusUpdate (run res)) \<and>
   (\<exists>res. RestartFromStep 0 cueStub quietClient failedGroupRun ''g2'' = Some res \<and>
      map StepStatus.Name (WorkflowRunStatus.Steps (Status (run res))) = [''A'', ''B'', ''G''] \<and>
      Phase (WorkflowRunStatus.Steps (Status (run res)) ! 2) = WorkflowStepPhaseRunning \<and>
      Reason (WorkflowRunStatus.Steps (Status (run res)) ! 2) = [] \<and>
      map StepStatus.Name (SubStepsStatus (WorkflowRunStatus.Steps (Status (run res)) ! 2)) = [''g1''] \<and>
      hd (calls res) = StatusUpdate (run res))"
proof -
  have s: "specSteps quietClient failedRun = Inr pipeline" "specSteps quietClient failedGroupRun = Inr pipeline"
    by (simp_all add: specSteps_def failedRun_def failedGroupRun_def mk_defs)
  have d1: "getStepDependency 0 pipeline ''B'' False = Some [''G'', ''C'']"
    by (simp add: getStepDependency_def pipeline_def mk_defs)
  have d2: "getStepDependency 0 pipeline ''g2'' False = Some [''g3'']"
    by (simp add: getStepDependency_def pipeline_def mk_defs)
  have d3: "getStepDependency 0 pipeline ''G'' False = Some [''C'']"
    by (simp add: getStepDependency_def pipeline_def mk_defs)
  have 1: "\<exists>res. RestartFromStep 0 cueStub quietClient failedRun ''B'' = Some res \<and>
      run res = restarted failedRun
           (filter (\<lambda>e. StepStatus.Name e \<noteq> ''B'' \<and> StepStatus.Name e \<notin> set [''G'', ''C''])
              (WorkflowRunStatus.Steps (Status failedRun))) \<and>
      calls res \<noteq> [] \<and> hd (calls res) = StatusUpdate (run res)"
    using RestartFromStep_deletes[where stepName = "''B''" and c = quietClient and q = cueStub
        and r = failedRun and steps = pipeline and fuel = 0 and deps = "[''G'', ''C'']"
        and before = "[WorkflowRunStatus.Steps (Status failedRun) ! 0]"
        and target = "WorkflowRunStatus.Steps (Status failedRun) ! 1"
        and after = "[WorkflowRunStatus.Steps (Status failedRun) ! 2, WorkflowRunStatus.Steps (Status failedRun) ! 3]",
        THEN conjunct1] s(1) d1
    by (simp add: failedRun_def mk_defs mentions_def constant_defs)
  have 2: "\<exists>res. RestartFromStep 0 cueStub quietClient failedGroupRun ''g2'' = Some res \<and>
      run res = restarted failedGroupRun
           (filter (\<lambda>e. StepStatus.Name e \<notin> set [''C''])
              ([WorkflowRunStatus.Steps (Status failedGroupRun) ! 0, WorkflowRunStatus.Steps (Status failedGroupRun) ! 1] @
               (WorkflowRunStatus.Steps (Status failedGroupRun) ! 2)
                 \<lparr>Phase := WorkflowStepPhaseRunning, Reason := [],
                  SubStepsStatus :=
                    filter (\<lambda>e. StepStatus.Name e \<noteq> ''g2'' \<and> StepStatus.Name e \<notin> set [''g3''])
                      (SubStepsStatus (WorkflowRunStatus.Steps (Status failedGroupRun) ! 2))\<rparr>
               # [WorkflowRunStatus.Steps (Status failedGroupRun) ! 3])) \<and>
      calls res \<noteq> [] \<and> hd (calls res) = StatusUpdate (run res)"
    using RestartFromStep_deletes[where stepName = "''g2''" and c = quietClient and q = cueStub
        and r = failedGroupRun and steps = pipeline and fuel = 0 and deps = "[''C'']"
        and subDeps = "[''g3'']"
        and before = "[WorkflowRunStatus.Steps (Status failedGroupRun) ! 0, WorkflowRunStatus.Steps (Status failedGroupRun) ! 1]"
        and target = "WorkflowRunStatus.Steps (Status failedGroupRun) ! 2"
        and after = "[WorkflowRunStatus.Steps (Status failedGroupRun) ! 3]"
        and sub = "SubStepsStatus (WorkflowRunStatus.Steps (Status failedGroupRun) ! 2) ! 1",
        THEN conjunct2] s(2) d2 d3
    by (simp add: failedGroupRun_def mk_defs mentions_def constant_defs)
  from 1 obtain res1 where r1: "RestartFromStep 0 cueStub quietClient failedRun ''B'' = Some res1"
    "run res1 = restarted failedRun
           (filter (\<lambda>e. StepStatus.Name e \<noteq> ''B'' \<and> StepStatus.Name e \<notin> set [''G'', ''C''])
              (WorkflowRunStatus.Steps (Status failedRun)))"
    "hd (calls res1) = StatusUpdate (run res1)"
    by blast
  from 2 obtain res2 where r2: "RestartFromStep 0 cueStub quietClient failedGroupRun ''g2'' = Some res2"
    "run res2 = restarted failedGroupRun
           (filter (\<lambda>e. StepStatus.Name e \<notin> set [''C''])
              ([WorkflowRunStatus.Steps (Status failedGroupRun) ! 0, WorkflowRunStatus.Steps (Status failedGroupRun) ! 1] @
               (WorkflowRunStatus.Steps (Status failedGroupRun) ! 2)
                 \<lparr>Phase := WorkflowStepPhaseRunning, Reason := [],
                  SubStepsStatus :=
                    filter (\<lambda>e. StepStatus.Name e \<noteq> ''g2'' \<and> StepStatus.Name e \<notin> set [''g3''])
                      (SubStepsStatus (WorkflowRunStatus.Steps (Status failedGroupRun) ! 2))\<rparr>
               # [WorkflowRunStatus.Steps (Status failedGroupRun) ! 3]))"
    "hd (calls res2) = StatusUpdate (run res2)"
    by blast
  have a: "map StepStatus.Name (WorkflowRunStatus.Steps (Status (run res1))) = [''A''] \<and>
      \<not> Terminated (Status (run res1)) \<and> \<not> Suspend (Status (run res1)) \<and>
      \<not> Finished (Status (run res1)) \<and> EndTime (Status (run res1)) = None"
    unfolding r1(2) by (simp add: restarted_def failedRun_def mk_defs)
  have b: "map StepStatus.Name (WorkflowRunStatus.Steps (Status (run res2))) = [''A'', ''B'', ''G''] \<and>
      Phase (WorkflowRunStatus.Steps (Status (run res2)) ! 2) = WorkflowStepPhaseRunning \<and>
      Reason (WorkflowRunStatus.Steps (Status (run res2)) ! 2) = [] \<and>
      map StepStatus.Name (SubStepsStatus (WorkflowRunStatus.Steps (Status (run res2)) ! 2)) = [''g1'']"
    unfolding r2(2) by (simp add: restarted_def failedGroupRun_def mk_defs)
  from r1(1,3) a r2(1,3) b show ?thesis by simp
qed

lemma RestartFromStep_quiet:
  assumes "stepName \<noteq> []" and "specSteps c r = Inr steps"
    and "restartLoop fuel steps (WorkflowRunStatus.Mode (Status r)) stepName
           (length (WorkflowRunStatus.Steps (Status r))) 0
           \<lparr>stepStatus = WorkflowRunStatus.Steps (Status r), runSteps = WorkflowRunStatus.Steps (Status r),
            shared = True, dependency = [], found = False\<rparr> = Some (None, st)"
    and "found st" and "ContextBackend (Status r) = None"
    and "send c (StatusUpdate (restarted r (runSteps st))) = None"
  shows "RestartFromStep fuel q c r stepName =
     Some \<lparr>err = None, run = restarted r (runSteps st), calls = [StatusUpdate (restarted r (runSteps st))]\<rparr>"
  using assms
  by (simp add: RestartFromStep_def Let_def specSteps_Status restarted_def clearContext_def)

text \<open>
  The claim as the specification states it fails on \<^const>\<open>nestedRun\<close>: the substep \<open>g1\<close> is
  a dependent of \<open>A\<close>, the restart from \<open>A\<close> succeeds, and the status still has the entry
  of \<open>g1\<close>.
\<close>

theorem RestartFromStep_counterexample:
  "getStepDependency 2 nestedSteps ''A'' True = Some [''g1''] \<and>
   (\<exists>res. RestartFromStep 2 cueStub quietClient nestedRun ''A'' = Some res \<and> err res = None \<and>
      calls res = [StatusUpdate (run res)] \<and>
      map StepStatus.Name (statusEntries (WorkflowRunStatus.Steps (Status (run res)))) = [''G'', ''g1''])"
proof -
  let ?entries = "WorkflowRunStatus.Steps (Status nestedRun)"
  let ?init = "\<lparr>stepStatus = ?entries, runSteps = ?entries, shared = True, dependency = [], found = False\<rparr>"
  let ?final = "?init\<lparr>dependency := [''g1''], runSteps := deleteStepStatus [''g1''] (stepStatus ?init) ''A'' False,
                  shared := False, found := True\<rparr>"
  have b: "buildDependsOn nestedSteps = [(''A'', []), (''G'', []), (''g1'', [''A''])]"
    by (simp add: buildDependsOn_def recordSteps_def recordStep_def addInputs_def lookupDeps_def
        nestedSteps_def mk_defs constant_defs)
  have d: "getStepDependency 2 nestedSteps ''A'' True = Some [''g1'']"
    by (simp add: getStepDependency_def b eval_nat_numeral)
  have s: "specSteps quietClient nestedRun = Inr nestedSteps"
    by (simp add: specSteps_def nestedRun_def mk_defs)
  have m: "WorkflowExecuteMode.Steps (WorkflowRunStatus.Mode (Status nestedRun)) = WorkflowModeDAG"
    by (simp add: nestedRun_def mk_defs)
  have sts: "stepStatus ?init = [] @ (?entries ! 0) # [?entries ! 1]"
    by (simp add: nestedRun_def mk_defs)
  have t: "StepStatus.Name (?entries ! 0) = ''A''" "Phase (?entries ! 0) = WorkflowStepPhaseFailed"
    by (simp_all add: nestedRun_def mk_defs)
  have "restartLoop 2 nestedSteps (WorkflowRunStatus.Mode (Status nestedRun)) ''A'' (length (stepStatus ?init)) 0 ?init
      = Some (None, ?final)"
    using sts _ t by (rule restartLoop_step) (simp_all add: m d)
  then have l: "restartLoop 2 nestedSteps (WorkflowRunStatus.Mode (Status nestedRun)) ''A'' (length ?entries) 0 ?init
      = Some (None, ?final)"
    by simp
  have k: "runSteps ?final = [?entries ! 1]"
    by (simp add: nestedRun_def mk_defs)
  have "RestartFromStep 2 cueStub quietClient nestedRun ''A'' =
      Some \<lparr>err = None, run = restarted nestedRun (runSteps ?final),
            calls = [StatusUpdate (restarted nestedRun (runSteps ?final))]\<rparr>"
    using _ s l by (rule RestartFromStep_quiet) (simp_all add: quietClient_def nestedRun_def mk_defs)
  then have r: "RestartFromStep 2 cueStub quietClient nestedRun ''A'' =
      Some \<lparr>err = None, run = restarted nestedRun [?entries ! 1],
            calls = [StatusUpdate (restarted nestedRun [?entries ! 1])]\<rparr>"
    unfolding k .
  have n: "map StepStatus.Name (statusEntries [?entries ! 1]) = [''G'', ''g1'']"
    by (simp add: statusEntries_def StepStatus.truncate_def nestedRun_def mk_defs)
  have "WorkflowRunStatus.Steps (Status (restarted nestedRun [?entries ! 1])) = [?entries ! 1]"
    by (simp add: restarted_def)
  with r n d show ?thesis by simp
qed

end
